theory Spec2Isabelle
  imports Main "HOL-Library.Sublist" "HOL-Library.Multiset"
begin

section \<open>The training-data page: data model\<close>

text \<open>
  The development embeds the filter, sort and search logic of the training-data page
  (\<^verbatim>\<open>static/js/training.js\<close>) and of the database-status page (the second script, with
  \<^verbatim>\<open>filterKBTable\<close>, \<^verbatim>\<open>filterTDTable\<close> and \<^verbatim>\<open>populateKBCategories\<close>).

  A card of the grid (or a row of a table) is an element carrying \<^verbatim>\<open>data-*\<close> attributes.
  Reading \<^verbatim>\<open>el.dataset.x\<close> gives a string, or \<^verbatim>\<open>undefined\<close> when the attribute is absent:
  each attribute is a \<open>string option\<close>. \<open>ident\<close> stands for the identity of the DOM node and
  \<open>display\<close> for its \<^verbatim>\<open>style.display\<close>.
\<close>

record item =
  ident :: nat
  data_date :: "string option"
  data_urgency :: "string option"
  data_category :: "string option"
  data_incident :: "string option"
  display :: string

text \<open>The module-level object \<^verbatim>\<open>filters\<close>; the two selections are arrays of checkbox values.\<close>

record filter_state =
  urgency :: "string list"
  categories :: "string list"
  sortBy :: string
  searchTerm :: string

text \<open>
  An ``All'' checkbox together with the individual checkboxes of its group, each a pair of
  its \<^verbatim>\<open>value\<close> and its \<^verbatim>\<open>checked\<close> flag, in document order.
\<close>

record cb_group =
  allCb :: bool
  cbs :: "(string \<times> bool) list"

text \<open>
  The part of the document the script reads and writes. The elements that the script
  dereferences without a null test (\<^verbatim>\<open>urgAll\<close>, \<^verbatim>\<open>catAll\<close> and with it the container
  \<^verbatim>\<open>categoryFilters\<close>, \<^verbatim>\<open>sortNewest\<close>, \<^verbatim>\<open>trainingGrid\<close>, \<^verbatim>\<open>visibleCount\<close>, \<^verbatim>\<open>noResults\<close>, the badge
  \<^verbatim>\<open>.filter-count\<close>, and the table bodies of the status page) are taken to exist; the search
  box, which is only ever used under a test, is optional. All cards are in the grid. A
  \<^verbatim>\<open>textContent\<close> that is assigned a number is kept as that number. Toasts and the dropdown
  are cosmetic and left out. \<open>sortBy_checked\<close> is the value of the checked radio of the group
  \<^verbatim>\<open>sortBy\<close>, if one is checked, and \<open>sortNewest_value\<close> the value of the radio \<^verbatim>\<open>sortNewest\<close>.
\<close>

record page =
  filters :: filter_state
  urgency_group :: cb_group
  category_group :: cb_group
  sortBy_checked :: "string option"
  sortNewest_value :: string
  searchInput :: "string option"
  training_items :: "item list"
  visibleCount :: nat
  noResults_display :: string
  trainingGrid_display :: string
  filter_count_text :: nat
  filter_count_display :: string

datatype error = TypeError

section \<open>Platform functions\<close>

text \<open>
  \<^verbatim>\<open>String.prototype.toLowerCase\<close> maps a string by the case mappings of the Unicode
  character database that the engine carries. It is a parameter of the model, called
  \<open>toLowerCase\<close> in the functions that use it.
\<close>

type_synonym lower_casing = "string \<Rightarrow> string"

text \<open>
  On a string of ASCII characters \<^verbatim>\<open>toLowerCase\<close> replaces the letters \<^verbatim>\<open>A\<close> to \<^verbatim>\<open>Z\<close> by
  \<^verbatim>\<open>a\<close> to \<^verbatim>\<open>z\<close> and keeps every other character, on every engine. \<open>ascii_toLowerCase\<close> is
  that function, for evaluation at concrete pages; it is used on ASCII strings only.
\<close>

definition lower_char :: "char \<Rightarrow> char" where
  "lower_char c =
     (let n = (of_char c :: nat) in if 65 \<le> n \<and> n \<le> 90 then char_of (n + 32) else c)"

definition ascii_toLowerCase :: lower_casing where
  "ascii_toLowerCase s = map lower_char s"

text \<open>
  \<^verbatim>\<open>Array.prototype.includes\<close> on an array of strings, asked for a value that may be
  \<^verbatim>\<open>undefined\<close>: an array of checkbox values never holds \<^verbatim>\<open>undefined\<close>.
\<close>

definition array_includes :: "string list \<Rightarrow> string option \<Rightarrow> bool" where
  "array_includes arr v = (case v of None \<Rightarrow> False | Some s \<Rightarrow> s \<in> set arr)"

text \<open>
  \<^verbatim>\<open>Array.prototype.sort(comparefn)\<close>. The comparison function returns a number, \<open>None\<close>
  standing for \<^verbatim>\<open>NaN\<close>, which the sort reads as \<open>+0\<close> (ECMAScript, SortCompare). ECMAScript
  fixes the result for a consistent comparison function only, where it is the stable sort;
  for any other the order is left to the engine. The model follows V8 on an array of fewer
  than 64 elements, which is sorted as one run: \<^verbatim>\<open>CountAndMakeRun\<close> takes the longest prefix
  that is non-descending, or strictly descending and then reversed, and
  \<^verbatim>\<open>BinaryInsertionSort\<close> moves each further element to the slot that a binary search in the
  part before it finds. V8 cuts a longer array in such runs and merges them, which is left
  out: for the comparison functions that are consistent the result is the same, and for
  the others the order that the model gives to an array of 64 or more elements is not
  claimed to be V8's. Below, the order of the result is used for consistent comparison
  functions and at concrete arrays of at most seven elements only.
\<close>

definition SortCompare :: "int option \<Rightarrow> int" where
  "SortCompare v = (case v of None \<Rightarrow> 0 | Some d \<Rightarrow> d)"

text \<open>The loop of \<^verbatim>\<open>CountAndMakeRun\<close>: how many elements after the second one the run takes.\<close>

fun run_length :: "('a \<Rightarrow> 'a \<Rightarrow> int option) \<Rightarrow> bool \<Rightarrow> 'a \<Rightarrow> 'a list \<Rightarrow> nat" where
  "run_length comparefn isDescending previousElement [] = 0"
| "run_length comparefn isDescending previousElement (currentElement # rest) =
     (let order = SortCompare (comparefn currentElement previousElement) in
      if (if isDescending then order \<ge> 0 else order < 0) then 0
      else Suc (run_length comparefn isDescending currentElement rest))"

text \<open>The inner loop of \<^verbatim>\<open>BinaryInsertionSort\<close>: the slot of \<open>pivot\<close> in \<open>a\<close> between \<open>left\<close> and \<open>right\<close>.\<close>

function binary_search :: "('a \<Rightarrow> 'a \<Rightarrow> int option) \<Rightarrow> 'a \<Rightarrow> 'a list \<Rightarrow> nat \<Rightarrow> nat \<Rightarrow> nat" where
  "binary_search comparefn pivot a left right =
     (if left < right then
        (let mid = left + (right - left) div 2;
             order = SortCompare (comparefn pivot (a ! mid)) in
         if order < 0 then binary_search comparefn pivot a left mid
         else binary_search comparefn pivot a (mid + 1) right)
      else left)"
  by pat_completeness auto
termination
  by (relation "measure (\<lambda>(comparefn, pivot, a, left, right). right - left)") auto

declare binary_search.simps [simp del]

text \<open>
  The outer loop: \<open>sorted_part\<close> is the array before \<^verbatim>\<open>start\<close>, the second list the elements
  from \<^verbatim>\<open>start\<close> on.
\<close>

fun BinaryInsertionSort :: "('a \<Rightarrow> 'a \<Rightarrow> int option) \<Rightarrow> 'a list \<Rightarrow> 'a list \<Rightarrow> 'a list" where
  "BinaryInsertionSort comparefn sorted_part [] = sorted_part"
| "BinaryInsertionSort comparefn sorted_part (pivot # rest) =
     (let left = binary_search comparefn pivot sorted_part 0 (length sorted_part) in
      BinaryInsertionSort comparefn (take left sorted_part @ pivot # drop left sorted_part) rest)"

definition array_sort :: "('a \<Rightarrow> 'a \<Rightarrow> int option) \<Rightarrow> 'a list \<Rightarrow> 'a list" where
  "array_sort comparefn a =
     (case a of
        elementHigh # elementLow # rest \<Rightarrow>
          (let isDescending = SortCompare (comparefn elementLow elementHigh) < 0;
               runLength = 2 + run_length comparefn isDescending elementLow rest;
               run = take runLength a in
           BinaryInsertionSort comparefn (if isDescending then rev run else run)
             (drop runLength a))
      | _ \<Rightarrow> a)"

text \<open>
  A comparison function is consistent on a set when it orders the set as a key does:
  negative exactly when the key of the first argument is smaller.
\<close>

definition keyed :: "('a \<Rightarrow> 'a \<Rightarrow> int option) \<Rightarrow> ('a \<Rightarrow> int) \<Rightarrow> 'a set \<Rightarrow> bool" where
  "keyed comparefn key S \<longleftrightarrow>
     (\<forall>x\<in>S. \<forall>y\<in>S. (SortCompare (comparefn x y) < 0) = (key x < key y))"

text \<open>
  \<^verbatim>\<open>new Date(s)\<close> for a string depends on the platform's date parser, which is a
  parameter of the model: it gives the time value in milliseconds, or \<open>None\<close> for an
  invalid date (whose time value is \<^verbatim>\<open>NaN\<close>).
\<close>

type_synonym date_parser = "string \<Rightarrow> int option"

text \<open>
  Two ISO dates as every conforming parser reads them, for evaluation at concrete pages;
  every other string used with it below is not a date.
\<close>

definition iso_dates :: date_parser where
  "iso_dates s =
     (if s = ''2024-01-01'' then Some 1704067200000
      else if s = ''2024-01-02'' then Some 1704153600000
      else None)"

section \<open>Sorting by date\<close>

text \<open>\<^verbatim>\<open>new Date(a.dataset.date || 0)\<close>: an absent or empty attribute gives the epoch.\<close>

definition date_of :: "date_parser \<Rightarrow> item \<Rightarrow> int option" where
  "date_of parse a =
     (case data_date a of
        None \<Rightarrow> Some 0
      | Some s \<Rightarrow> if s = [] then Some 0 else parse s)"

text \<open>
  The comparison function shared by \<^verbatim>\<open>filterItems\<close>, \<^verbatim>\<open>filterKBTable\<close> and \<^verbatim>\<open>filterTDTable\<close>:
  \<^verbatim>\<open>sort === 'newest' ? dateB - dateA : dateA - dateB\<close>. A difference with an invalid date
  is \<^verbatim>\<open>NaN\<close>. The difference of two time values is kept exact; the sort uses its sign only.
\<close>

definition by_date :: "date_parser \<Rightarrow> string \<Rightarrow> item \<Rightarrow> item \<Rightarrow> int option" where
  "by_date parse order a b =
     (case (date_of parse a, date_of parse b) of
        (Some dateA, Some dateB) \<Rightarrow>
          Some (if order = ''newest'' then dateB - dateA else dateA - dateB)
      | _ \<Rightarrow> None)"

section \<open>Filtering\<close>

text \<open>
  The body of the \<^verbatim>\<open>forEach\<close> of \<^verbatim>\<open>filterItems\<close>. The three constants are computed before
  the test, so \<^verbatim>\<open>incident.includes\<close> is reached whenever the search term is not empty, and
  raises a \<^verbatim>\<open>TypeError\<close> when the card has no \<^verbatim>\<open>data-incident\<close>.
\<close>

definition matchesUrgency :: "filter_state \<Rightarrow> item \<Rightarrow> bool" where
  "matchesUrgency f it \<longleftrightarrow> length (urgency f) = 0 \<or> array_includes (urgency f) (data_urgency it)"

definition matchesCategory :: "filter_state \<Rightarrow> item \<Rightarrow> bool" where
  "matchesCategory f it \<longleftrightarrow>
     length (categories f) = 0 \<or> array_includes (categories f) (data_category it)"

definition matchesSearch :: "filter_state \<Rightarrow> item \<Rightarrow> error + bool" where
  "matchesSearch f it =
     (if searchTerm f = [] then Inr True
      else case data_incident it of
             None \<Rightarrow> Inl TypeError
           | Some incident \<Rightarrow> Inr (sublist (searchTerm f) incident))"

definition item_shown :: "filter_state \<Rightarrow> item \<Rightarrow> error + bool" where
  "item_shown f it =
     (case matchesSearch f it of
        Inl e \<Rightarrow> Inl e
      | Inr s \<Rightarrow> Inr (matchesUrgency f it \<and> matchesCategory f it \<and> s))"

text \<open>
  The loop itself, shared by the three filter functions: \<open>shown\<close> is the test of the
  body, the elements already appended to the emptied container and the running
  \<^verbatim>\<open>visibleCount\<close> are the accumulators. An exception leaves the loop and the function; the
  half-filled container it leaves behind is not kept.
\<close>

fun append_items :: "(item \<Rightarrow> error + bool) \<Rightarrow> item list \<Rightarrow> item list \<Rightarrow> nat \<Rightarrow> error + (item list \<times> nat)" where
  "append_items shown [] grid n = Inr (grid, n)"
| "append_items shown (it # its) grid n =
     (case shown it of
        Inl e \<Rightarrow> Inl e
      | Inr True \<Rightarrow> append_items shown its (grid @ [it\<lparr>display := ''''\<rparr>]) (n + 1)
      | Inr False \<Rightarrow> append_items shown its (grid @ [it\<lparr>display := ''none''\<rparr>]) n)"

definition filterItems :: "date_parser \<Rightarrow> page \<Rightarrow> error + page" where
  "filterItems parse p =
     (let items = array_sort (by_date parse (sortBy (filters p))) (training_items p) in
      case append_items (item_shown (filters p)) items [] 0 of
        Inl e \<Rightarrow> Inl e
      | Inr (grid, n) \<Rightarrow>
          Inr (p\<lparr>training_items := grid,
                 visibleCount := n,
                 noResults_display := (if n = 0 then ''block'' else ''none''),
                 trainingGrid_display := (if n = 0 then ''none'' else '''')\<rparr>))"

section \<open>The badge\<close>

text \<open>The local \<^verbatim>\<open>count\<close> of \<^verbatim>\<open>updateFilterBadge\<close>.\<close>

definition badge_count :: "filter_state \<Rightarrow> nat" where
  "badge_count f =
     length (urgency f) + length (categories f)
       + (if sortBy f \<noteq> ''newest'' then 1 else 0)
       + (if searchTerm f \<noteq> [] then 1 else 0)"

definition updateFilterBadge :: "page \<Rightarrow> page" where
  "updateFilterBadge p =
     (let count = badge_count (filters p) in
      if count > 0 then p\<lparr>filter_count_text := count, filter_count_display := ''inline''\<rparr>
      else p\<lparr>filter_count_display := ''none''\<rparr>)"

section \<open>Apply, search, clear\<close>

definition checked_values :: "(string \<times> bool) list \<Rightarrow> string list" where
  "checked_values boxes = map fst (filter snd boxes)"

definition applyFilters :: "date_parser \<Rightarrow> page \<Rightarrow> error + page" where
  "applyFilters parse p =
     (let f = (filters p)\<lparr>
            urgency := checked_values (cbs (urgency_group p)),
            categories := checked_values (cbs (category_group p)),
            sortBy := (case sortBy_checked p of None \<Rightarrow> ''newest'' | Some v \<Rightarrow> v)\<rparr> in
      case filterItems parse (p\<lparr>filters := f\<rparr>) of
        Inl e \<Rightarrow> Inl e
      | Inr p' \<Rightarrow> Inr (updateFilterBadge p'))"

text \<open>
  The \<^verbatim>\<open>input\<close> listener installed by \<^verbatim>\<open>setupSearch\<close>, run after the user has changed the
  text of the search box to \<open>v\<close>. Without a search box there is no listener.
\<close>

definition search_input :: "date_parser \<Rightarrow> lower_casing \<Rightarrow> string \<Rightarrow> page \<Rightarrow> error + page" where
  "search_input parse toLowerCase v p =
     (case searchInput p of
        None \<Rightarrow> Inr p
      | Some _ \<Rightarrow>
          filterItems parse
            (p\<lparr>searchInput := Some v, filters := (filters p)\<lparr>searchTerm := toLowerCase v\<rparr>\<rparr>))"

definition uncheck_all :: "(string \<times> bool) list \<Rightarrow> (string \<times> bool) list" where
  "uncheck_all boxes = map (\<lambda>cb. (fst cb, False)) boxes"

definition default_filters :: filter_state where
  "default_filters =
     \<lparr>urgency = [], categories = [], sortBy = ''newest'', searchTerm = ''''\<rparr>"

definition clearAllFilters :: "page \<Rightarrow> page" where
  "clearAllFilters p =
     updateFilterBadge
       (p\<lparr>urgency_group := \<lparr>allCb = True, cbs = uncheck_all (cbs (urgency_group p))\<rparr>,
          category_group := \<lparr>allCb = True, cbs = uncheck_all (cbs (category_group p))\<rparr>,
          sortBy_checked := Some (sortNewest_value p),
          searchInput := map_option (\<lambda>_. '''') (searchInput p),
          filters := default_filters,
          training_items := map (\<lambda>it. it\<lparr>display := ''''\<rparr>) (training_items p),
          visibleCount := length (training_items p),
          noResults_display := ''none'',
          trainingGrid_display := ''''\<rparr>)"

section \<open>Category discovery\<close>

text \<open>
  \<^verbatim>\<open>Set.prototype.add\<close>: a \<^verbatim>\<open>Set\<close> keeps its values in insertion order and adds a value
  only once.
\<close>

definition set_add :: "string list \<Rightarrow> string \<Rightarrow> string list" where
  "set_add s v = (if v \<in> set s then s else s @ [v])"

text \<open>
  The first loop of \<^verbatim>\<open>populateCategories\<close> and of \<^verbatim>\<open>populateKBCategories\<close>; the test
  \<^verbatim>\<open>cat && cat !== 'none'\<close> fails for \<^verbatim>\<open>undefined\<close> and for the empty string.
\<close>

fun collect_categories :: "item list \<Rightarrow> string list \<Rightarrow> string list" where
  "collect_categories [] seen = seen"
| "collect_categories (it # its) seen =
     collect_categories its
       (case data_category it of
          None \<Rightarrow> seen
        | Some cat \<Rightarrow> if cat \<noteq> [] \<and> cat \<noteq> ''none'' then set_add seen cat else seen)"

text \<open>
  The container receives a checked ``All Categories'' box and then, for each collected
  category in the order of the \<^verbatim>\<open>Set\<close>, a \<^verbatim>\<open>div\<close> whose \<^verbatim>\<open>innerHTML\<close> is the template
  \<^verbatim>\<open><input class="form-check-input category-cb" type="checkbox" id="cat${index}" value="${cat}">\<close>
  \<^verbatim>\<open><label class="form-check-label" for="cat${index}">${cat}</label>\<close>
  On the status page the class is \<^verbatim>\<open>kb-cat-cb\<close> and the identifiers are \<^verbatim>\<open>kbCat${index}\<close>, where
  \<^verbatim>\<open>index\<close> is the second argument that \<^verbatim>\<open>Set.prototype.forEach\<close> passes, which is the
  category again. The category is written into the markup as it is, with no escaping,
  and the HTML parser of the platform decides what elements come out of it. That is a
  parameter of the model, one for the template of each page: \<open>boxes_of cat\<close> are the
  checkboxes of the class that the \<^verbatim>\<open>div\<close> of the category \<open>cat\<close> holds, in document order,
  each with its \<^verbatim>\<open>value\<close> and its \<^verbatim>\<open>checked\<close> flag. \<^verbatim>\<open>querySelectorAll\<close> then finds the
  boxes of all the \<^verbatim>\<open>div\<close>s in document order. Scripts that the markup of a category may
  carry are not run by \<^verbatim>\<open>innerHTML\<close>; handlers in attributes of the markup are left out.
\<close>

type_synonym markup_reader = "string \<Rightarrow> (string \<times> bool) list"

definition category_choices :: "markup_reader \<Rightarrow> item list \<Rightarrow> cb_group" where
  "category_choices boxes_of items =
     \<lparr>allCb = True, cbs = concat (map boxes_of (collect_categories items []))\<rparr>"

definition populateCategories :: "markup_reader \<Rightarrow> page \<Rightarrow> page" where
  "populateCategories boxes_of p =
     p\<lparr>category_group := category_choices boxes_of (training_items p)\<rparr>"

definition populateKBCategories :: "markup_reader \<Rightarrow> item list \<Rightarrow> cb_group" where
  "populateKBCategories boxes_of rows = category_choices boxes_of rows"

text \<open>
  The boxes of the categories used at concrete pages, as every HTML parser reads them
  from the template of either page. A category made of ASCII letters gives one unchecked
  box whose value is the category. For the category that is one double quote the markup
  is \<^verbatim>\<open>value="""\<close>: the value ends at the second quote and is empty, and the third quote
  starts an attribute of no meaning (so does the quote that the status page writes after
  \<^verbatim>\<open>id="kbCat"\<close>). For the category \<^verbatim>\<open>&#110;one\<close> the markup is \<^verbatim>\<open>value="&#110;one"\<close>, where the
  character reference stands for the letter \<^verbatim>\<open>n\<close>. \<open>html_boxes\<close> is used with these two
  categories and with categories made of ASCII letters only.
\<close>

definition html_boxes :: markup_reader where
  "html_boxes cat =
     (if cat = [CHR 0x22] then [('''', False)]
      else if cat = ''&#110;one'' then [(''none'', False)]
      else [(cat, False)])"

section \<open>The checkbox listeners\<close>

text \<open>
  A click toggles a checkbox and then runs its \<^verbatim>\<open>change\<close> listener. The listeners of
  \<^verbatim>\<open>setupUrgencyCheckboxes\<close> (both pages), \<^verbatim>\<open>populateCategories\<close> and
  \<^verbatim>\<open>populateKBCategories\<close> are the same two functions on their group.
\<close>

definition all_changed :: "cb_group \<Rightarrow> cb_group" where
  "all_changed g =
     (let checked = \<not> allCb g in
      if checked then \<lparr>allCb = True, cbs = uncheck_all (cbs g)\<rparr>
      else g\<lparr>allCb := False\<rparr>)"

definition cb_changed :: "nat \<Rightarrow> cb_group \<Rightarrow> cb_group" where
  "cb_changed i g =
     (if i < length (cbs g) then
        (let checked = \<not> snd (cbs g ! i);
             g' = g\<lparr>cbs := (cbs g)[i := (fst (cbs g ! i), checked)]\<rparr> in
         if checked then g'\<lparr>allCb := False\<rparr> else g')
      else g)"

datatype event =
    UrgAllChange
  | UrgencyChange nat
  | CatAllChange
  | CategoryChange nat
  | ClearClick

fun handle :: "event \<Rightarrow> page \<Rightarrow> page" where
  "handle UrgAllChange p = p\<lparr>urgency_group := all_changed (urgency_group p)\<rparr>"
| "handle (UrgencyChange i) p = p\<lparr>urgency_group := cb_changed i (urgency_group p)\<rparr>"
| "handle CatAllChange p = p\<lparr>category_group := all_changed (category_group p)\<rparr>"
| "handle (CategoryChange i) p = p\<lparr>category_group := cb_changed i (category_group p)\<rparr>"
| "handle ClearClick p = clearAllFilters p"

definition settle :: "event list \<Rightarrow> page \<Rightarrow> page" where
  "settle events p = fold handle events p"

text \<open>The ``All'' box and an individual box of the group are not both checked.\<close>

definition exclusive :: "cb_group \<Rightarrow> bool" where
  "exclusive g \<longleftrightarrow> \<not> (allCb g \<and> (\<exists>cb \<in> set (cbs g). snd cb))"

section \<open>The database-status page\<close>

record kb_filter_state =
  kb_categories :: "string list"
  kb_sort :: string

record td_filter_state =
  td_urgency :: "string list"
  td_sort :: string

text \<open>
  \<^verbatim>\<open>filterKBTable\<close> and \<^verbatim>\<open>filterTDTable\<close>: the rows of the table body, sorted and shown or
  hidden, and the number written to the counter. Nothing in them can raise.
\<close>

definition showByCategory :: "kb_filter_state \<Rightarrow> item \<Rightarrow> bool" where
  "showByCategory f row \<longleftrightarrow>
     length (kb_categories f) = 0 \<or> array_includes (kb_categories f) (data_category row)"

definition showByUrgency :: "td_filter_state \<Rightarrow> item \<Rightarrow> bool" where
  "showByUrgency f row \<longleftrightarrow>
     length (td_urgency f) = 0 \<or> array_includes (td_urgency f) (data_urgency row)"

definition filterKBTable :: "date_parser \<Rightarrow> kb_filter_state \<Rightarrow> item list \<Rightarrow> error + (item list \<times> nat)" where
  "filterKBTable parse f rows =
     append_items (\<lambda>row. Inr (showByCategory f row))
       (array_sort (by_date parse (kb_sort f)) rows) [] 0"

definition filterTDTable :: "date_parser \<Rightarrow> td_filter_state \<Rightarrow> item list \<Rightarrow> error + (item list \<times> nat)" where
  "filterTDTable parse f rows =
     append_items (\<lambda>row. Inr (showByUrgency f row))
       (array_sort (by_date parse (td_sort f)) rows) [] 0"

section \<open>The records of the specification\<close>

text \<open>
  Modelled from the spec: the templates that write the cards and their \<^verbatim>\<open>data-*\<close> attributes
  are not among the sources. A Record of the specification (section 3) has a
  \<^verbatim>\<open>searchText\<close>, ``a lower-cased concatenation of free-text fields''; on the page it is the
  attribute \<^verbatim>\<open>data-incident\<close>. \<open>has_searchText\<close> says that the attribute is there, and
  \<open>lower_cased_searchText\<close> that it is there and in lower case, which is to say that
  \<^verbatim>\<open>toLowerCase\<close> leaves it as it is.
\<close>

definition has_searchText :: "item \<Rightarrow> bool" where
  "has_searchText it \<longleftrightarrow> data_incident it \<noteq> None"

definition lower_cased_searchText :: "lower_casing \<Rightarrow> item \<Rightarrow> bool" where
  "lower_cased_searchText toLowerCase it \<longleftrightarrow>
     (case data_incident it of None \<Rightarrow> False | Some s \<Rightarrow> toLowerCase s = s)"

section \<open>Sample pages\<close>

text \<open>
  Concrete cards and a concrete page, for evaluating the functions above: \<open>training_item\<close> builds
  a card that is displayed, \<open>loaded_page\<close> is the page as \<^verbatim>\<open>DOMContentLoaded\<close> leaves it for a
  template with the four urgency levels, nothing selected and the search box empty.
\<close>

definition training_item :: "nat \<Rightarrow> string option \<Rightarrow> string option \<Rightarrow> string option \<Rightarrow> string option \<Rightarrow> item" where
  "training_item i d u c s =
     \<lparr>ident = i, data_date = d, data_urgency = u, data_category = c, data_incident = s,
      display = ''''\<rparr>"

definition loaded_page :: "item list \<Rightarrow> page" where
  "loaded_page items =
     populateCategories html_boxes
       \<lparr>filters = default_filters,
        urgency_group =
          \<lparr>allCb = True,
           cbs = [(''Critical'', False), (''High'', False), (''Medium'', False), (''Low'', False)]\<rparr>,
        category_group = \<lparr>allCb = False, cbs = []\<rparr>,
        sortBy_checked = Some ''newest'',
        sortNewest_value = ''newest'',
        searchInput = Some '''',
        training_items = items,
        visibleCount = length items,
        noResults_display = ''none'',
        trainingGrid_display = '''',
        filter_count_text = 0,
        filter_count_display = ''none''\<rparr>"

definition disk_card :: item where
  "disk_card =
     training_item 1 (Some ''2024-01-01'') (Some ''Low'') (Some ''none'') (Some ''disk failure on node 7'')"

definition router_card :: item where
  "router_card =
     training_item 2 (Some ''2024-01-02'') (Some ''Critical'') (Some ''network'') (Some ''router down'')"

definition outage_card :: item where
  "outage_card =
     training_item 3 (Some ''2024-01-01'') (Some ''High'') (Some ''outage'') (Some ''power outage at gate 4'')"

definition undated_card :: item where
  "undated_card = training_item 4 None (Some ''Medium'') None (Some ''crane sensor drift'')"

definition garbled_card :: item where
  "garbled_card = training_item 5 (Some ''n/a'') (Some ''Low'') (Some '''') (Some ''berth booking mismatch'')"



definition dated :: "nat \<Rightarrow> string \<Rightarrow> item" where
  "dated i d = training_item i (Some d) (Some ''Low'') (Some ''none'') (Some ''gate sensor fault'')"

section \<open>Properties of the sort\<close>

subsection \<open>The result is a permutation\<close>

lemma BinaryInsertionSort_mset:
  "mset (BinaryInsertionSort cmp done todo) = mset done + mset todo"
proof (induction todo arbitrary: "done")
  case Nil
  show ?case by simp
next
  case (Cons pivot todo)
  let ?left = "binary_search cmp pivot done 0 (length done)"
  have "mset (take ?left done @ pivot # drop ?left done) = add_mset pivot (mset done)"
    by (metis append_take_drop_id mset.simps(2) mset_append union_mset_add_mset_right)
  then show ?case by (simp add: Cons.IH Let_def)
qed

lemma mset_array_sort: "mset (array_sort cmp a) = mset a"
proof (cases a)
  case Nil
  then show ?thesis by (simp add: array_sort_def)
next
  case (Cons x xs)
  show ?thesis
  proof (cases xs)
    case Nil
    then show ?thesis using Cons by (simp add: array_sort_def)
  next
    case (Cons y rest)
    let ?desc = "SortCompare (cmp y x) < 0"
    let ?n = "2 + run_length cmp ?desc y rest"
    have "array_sort cmp a =
            BinaryInsertionSort cmp (if ?desc then rev (take ?n a) else take ?n a) (drop ?n a)"
      using \<open>a = x # xs\<close> Cons by (simp add: array_sort_def Let_def)
    moreover have "mset (if ?desc then rev (take ?n a) else take ?n a) + mset (drop ?n a) = mset a"
    proof -
      have "mset (take ?n a) + mset (drop ?n a) = mset a"
        by (simp only: mset_append[symmetric] append_take_drop_id)
      moreover have "mset (if ?desc then rev (take ?n a) else take ?n a) = mset (take ?n a)"
        by (cases "SortCompare (cmp y x) < 0") (simp_all only: if_True if_False mset_rev)
      ultimately show ?thesis by (simp only:)
    qed
    ultimately show ?thesis by (simp only: BinaryInsertionSort_mset)
  qed
qed

lemma array_sort_Nil [simp]: "array_sort cmp [] = []"
  by (simp add: array_sort_def)

lemma set_array_sort: "set (array_sort cmp xs) = set xs"
  by (metis mset_array_sort set_mset_mset)

lemma length_array_sort: "length (array_sort cmp xs) = length xs"
  by (metis mset_array_sort size_mset)

subsection \<open>The binary search on a sorted part\<close>

lemma binary_search_bounds:
  "left \<le> right \<Longrightarrow>
   left \<le> binary_search cmp pivot a left right \<and> binary_search cmp pivot a left right \<le> right"
proof (induction cmp pivot a left right rule: binary_search.induct)
  case (1 cmp pivot a left right)
  show ?case
  proof (cases "left < right")
    case False
    then show ?thesis using 1 by (simp add: binary_search.simps)
  next
    case True
    let ?mid = "left + (right - left) div 2"
    have m: "left \<le> ?mid" "?mid < right" using True by auto
    show ?thesis
    proof (cases "SortCompare (cmp pivot (a ! ?mid)) < 0")
      case lt: True
      have "binary_search cmp pivot a left right = binary_search cmp pivot a left ?mid"
        using True lt by (subst binary_search.simps) (simp add: Let_def)
      moreover from "1.IH"(1)[OF True refl refl lt] m
      have "left \<le> binary_search cmp pivot a left ?mid
            \<and> binary_search cmp pivot a left ?mid \<le> ?mid" by simp
      ultimately show ?thesis using m by simp
    next
      case ge: False
      have "binary_search cmp pivot a left right = binary_search cmp pivot a (?mid + 1) right"
        using True ge by (subst binary_search.simps) (simp add: Let_def)
      moreover from "1.IH"(2)[OF True refl refl ge] m
      have "?mid + 1 \<le> binary_search cmp pivot a (?mid + 1) right
            \<and> binary_search cmp pivot a (?mid + 1) right \<le> right" by simp
      ultimately show ?thesis using m by simp
    qed
  qed
qed

text \<open>
  V8's invariant of the search: the pivot is not below the elements before \<open>left\<close> and
  below the elements from \<open>right\<close> on.
\<close>

lemma binary_search_sorted:
  assumes "keyed cmp key S" "pivot \<in> S" "set a \<subseteq> S" "sorted (map key a)"
    and "left \<le> right" "right \<le> length a"
    and "\<forall>i<left. key (a ! i) \<le> key pivot"
    and "\<forall>i. right \<le> i \<and> i < length a \<longrightarrow> key pivot < key (a ! i)"
  shows "(\<forall>i<binary_search cmp pivot a left right. key (a ! i) \<le> key pivot)
       \<and> (\<forall>i. binary_search cmp pivot a left right \<le> i \<and> i < length a \<longrightarrow> key pivot < key (a ! i))"
  using assms
proof (induction cmp pivot a left right rule: binary_search.induct)
  case (1 cmp pivot a left right)
  show ?case
  proof (cases "left < right")
    case False
    then have "binary_search cmp pivot a left right = left" by (simp add: binary_search.simps)
    moreover from False "1.prems"(5) have "left = right" by simp
    ultimately show ?thesis using "1.prems" by simp
  next
    case True
    let ?mid = "left + (right - left) div 2"
    have m: "left \<le> ?mid" "?mid < right" "?mid < length a" using True "1.prems"(6) by auto
    have inS: "a ! ?mid \<in> S" using m "1.prems"(3) by (auto simp: subset_iff)
    have ck: "(SortCompare (cmp pivot (a ! ?mid)) < 0) = (key pivot < key (a ! ?mid))"
      using "1.prems"(1,2) inS by (auto simp: keyed_def)
    have srt: "\<And>i j. i \<le> j \<Longrightarrow> j < length a \<Longrightarrow> key (a ! i) \<le> key (a ! j)"
      using "1.prems"(4) by (simp add: sorted_iff_nth_mono)
    show ?thesis
    proof (cases "SortCompare (cmp pivot (a ! ?mid)) < 0")
      case lt: True
      then have k: "key pivot < key (a ! ?mid)"
        using ck by simp
      have hi: "\<forall>i. ?mid \<le> i \<and> i < length a \<longrightarrow> key pivot < key (a ! i)"
      proof (intro allI impI)
        fix i assume "?mid \<le> i \<and> i < length a"
        then have "key (a ! ?mid) \<le> key (a ! i)" using srt by simp
        with k show "key pivot < key (a ! i)" by simp
      qed
      have "binary_search cmp pivot a left right = binary_search cmp pivot a left ?mid"
        using True lt by (subst binary_search.simps) (simp add: Let_def)
      moreover from "1.IH"(1)[OF True refl refl lt "1.prems"(1,2,3,4) _ _ "1.prems"(7) hi] m
      have "(\<forall>i<binary_search cmp pivot a left ?mid. key (a ! i) \<le> key pivot)
       \<and> (\<forall>i. binary_search cmp pivot a left ?mid \<le> i \<and> i < length a \<longrightarrow> key pivot < key (a ! i))"
        by simp
      ultimately show ?thesis by simp
    next
      case ge: False
      then have k: "key (a ! ?mid) \<le> key pivot"
        using ck by simp
      have lo: "\<forall>i<?mid + 1. key (a ! i) \<le> key pivot"
      proof (intro allI impI)
        fix i assume "i < ?mid + 1"
        then have "key (a ! i) \<le> key (a ! ?mid)" using srt m by simp
        with k show "key (a ! i) \<le> key pivot" by simp
      qed
      have "binary_search cmp pivot a left right = binary_search cmp pivot a (?mid + 1) right"
        using True ge by (subst binary_search.simps) (simp add: Let_def)
      moreover from "1.IH"(2)[OF True refl refl ge "1.prems"(1,2,3,4) _ "1.prems"(6) lo "1.prems"(8)] m
      have "(\<forall>i<binary_search cmp pivot a (?mid + 1) right. key (a ! i) \<le> key pivot)
       \<and> (\<forall>i. binary_search cmp pivot a (?mid + 1) right \<le> i \<and> i < length a \<longrightarrow> key pivot < key (a ! i))"
        by simp
      ultimately show ?thesis by simp
    qed
  qed
qed

lemma insertion_point:
  assumes "keyed cmp key S" "pivot \<in> S" "set a \<subseteq> S" "sorted (map key a)"
  defines "left \<equiv> binary_search cmp pivot a 0 (length a)"
  shows "\<forall>x\<in>set (take left a). key x \<le> key pivot"
    and "\<forall>x\<in>set (drop left a). key pivot < key x"
proof -
  have b: "left \<le> length a"
    using binary_search_bounds[of 0 "length a" cmp pivot a] by (simp add: left_def)
  have s: "(\<forall>i<left. key (a ! i) \<le> key pivot)
       \<and> (\<forall>i. left \<le> i \<and> i < length a \<longrightarrow> key pivot < key (a ! i))"
    unfolding left_def
    by (rule binary_search_sorted[OF assms(1-4)]) simp_all
  show "\<forall>x\<in>set (take left a). key x \<le> key pivot"
  proof
    fix x assume "x \<in> set (take left a)"
    then obtain i where "i < length (take left a)" "take left a ! i = x"
      by (auto simp: in_set_conv_nth)
    then show "key x \<le> key pivot" using s b by auto
  qed
  show "\<forall>x\<in>set (drop left a). key pivot < key x"
  proof
    fix x assume "x \<in> set (drop left a)"
    then obtain i where "i < length (drop left a)" "drop left a ! i = x"
      by (auto simp: in_set_conv_nth)
    then show "key pivot < key x" using s b by auto
  qed
qed

subsection \<open>Insertion keeps the part sorted and the equal elements in order\<close>

lemma insert_sorted:
  assumes "keyed cmp key S" "pivot \<in> S" "set a \<subseteq> S" "sorted (map key a)"
  defines "left \<equiv> binary_search cmp pivot a 0 (length a)"
  shows "sorted (map key (take left a @ pivot # drop left a))"
proof -
  note ip = insertion_point[OF assms(1-4), folded left_def]
  have "sorted (map key (take left a))" "sorted (map key (drop left a))"
    using assms(4) by (simp_all add: sorted_map sorted_wrt_take sorted_wrt_drop)
  moreover have "\<forall>x\<in>set (take left a). \<forall>y\<in>set (drop left a). key x \<le> key y"
    using ip by fastforce
  ultimately show ?thesis using ip
    by (auto simp: sorted_append less_imp_le)
qed

lemma insert_stable:
  assumes "keyed cmp key S" "pivot \<in> S" "set a \<subseteq> S" "sorted (map key a)"
  defines "left \<equiv> binary_search cmp pivot a 0 (length a)"
  shows "filter (\<lambda>x. key x = k) (take left a @ pivot # drop left a)
       = filter (\<lambda>x. key x = k) (a @ [pivot])"
proof -
  note ip = insertion_point[OF assms(1-4), folded left_def]
  have split: "filter (\<lambda>x. key x = k) a
        = filter (\<lambda>x. key x = k) (take left a) @ filter (\<lambda>x. key x = k) (drop left a)"
    by (metis append_take_drop_id filter_append)
  show ?thesis
  proof (cases "key pivot = k")
    case True
    then have "filter (\<lambda>x. key x = k) (drop left a) = []"
      using ip(2) by (auto simp: filter_empty_conv)
    then show ?thesis using True split by simp
  next
    case False
    then show ?thesis using split by simp
  qed
qed

lemma BinaryInsertionSort_keyed:
  assumes "keyed cmp key S" "set done \<subseteq> S" "set todo \<subseteq> S" "sorted (map key done)"
  shows "sorted (map key (BinaryInsertionSort cmp done todo))
       \<and> filter (\<lambda>x. key x = k) (BinaryInsertionSort cmp done todo)
           = filter (\<lambda>x. key x = k) (done @ todo)"
  using assms(2-4)
proof (induction todo arbitrary: "done")
  case Nil
  then show ?case by simp
next
  case (Cons pivot todo)
  let ?left = "binary_search cmp pivot done 0 (length done)"
  let ?next = "take ?left done @ pivot # drop ?left done"
  have p: "pivot \<in> S" using Cons.prems(2) by simp
  have s: "sorted (map key ?next)"
    by (rule insert_sorted[OF assms(1) p Cons.prems(1,3)])
  have f: "filter (\<lambda>x. key x = k) ?next = filter (\<lambda>x. key x = k) (done @ [pivot])"
    by (rule insert_stable[OF assms(1) p Cons.prems(1,3)])
  have sub: "set ?next \<subseteq> S"
    using Cons.prems(1) p by (auto dest: in_set_takeD in_set_dropD)
  have t: "set todo \<subseteq> S" using Cons.prems(2) by simp
  have "filter (\<lambda>x. key x = k) (?next @ todo)
          = filter (\<lambda>x. key x = k) ?next @ filter (\<lambda>x. key x = k) todo"
    by (simp only: filter_append)
  also have "\<dots> = filter (\<lambda>x. key x = k) (done @ [pivot]) @ filter (\<lambda>x. key x = k) todo"
    by (simp only: f)
  also have "\<dots> = filter (\<lambda>x. key x = k) (done @ pivot # todo)"
    by simp
  finally have g: "filter (\<lambda>x. key x = k) (?next @ todo)
                     = filter (\<lambda>x. key x = k) (done @ pivot # todo)" .
  have e: "BinaryInsertionSort cmp done (pivot # todo) = BinaryInsertionSort cmp ?next todo"
    by (simp add: Let_def)
  from Cons.IH[OF sub t s] show ?case
    by (simp only: e g)
qed

subsection \<open>The first run\<close>

lemma ascending_run:
  assumes "keyed cmp key S"
  shows "prev \<in> S \<Longrightarrow> set rest \<subseteq> S \<Longrightarrow>
     sorted (map key (prev # take (run_length cmp False prev rest) rest))"
proof (induction rest arbitrary: prev)
  case Nil
  show ?case by simp
next
  case (Cons cur rest)
  have ck: "(SortCompare (cmp cur prev) < 0) = (key cur < key prev)"
    using assms Cons.prems by (auto simp: keyed_def)
  show ?case
  proof (cases "SortCompare (cmp cur prev) < 0")
    case True
    then show ?thesis by (simp add: Let_def)
  next
    case False
    then have "key prev \<le> key cur" using ck by simp
    moreover have "sorted (map key (cur # take (run_length cmp False cur rest) rest))"
      using Cons.IH[of cur] Cons.prems by simp
    ultimately have "sorted (map key (prev # cur # take (run_length cmp False cur rest) rest))"
      by (simp only: list.map sorted2)
    moreover have "run_length cmp False prev (cur # rest) = Suc (run_length cmp False cur rest)"
      using False by (simp add: Let_def)
    ultimately show ?thesis by (simp only: take_Suc_Cons)
  qed
qed

lemma descending_run:
  assumes "keyed cmp key S"
  shows "prev \<in> S \<Longrightarrow> set rest \<subseteq> S \<Longrightarrow>
     sorted_wrt (\<lambda>x y. key y < key x) (prev # take (run_length cmp True prev rest) rest)"
proof (induction rest arbitrary: prev)
  case Nil
  show ?case by simp
next
  case (Cons cur rest)
  have tr: "transp (\<lambda>x y. key y < key x)"
    by (auto simp: transp_def)
  have ck: "(SortCompare (cmp cur prev) < 0) = (key cur < key prev)"
    using assms Cons.prems by (auto simp: keyed_def)
  show ?case
  proof (cases "SortCompare (cmp cur prev) < 0")
    case False
    then show ?thesis by (simp add: Let_def)
  next
    case True
    then have "key cur < key prev" using ck by simp
    moreover have "sorted_wrt (\<lambda>x y. key y < key x) (cur # take (run_length cmp True cur rest) rest)"
      using Cons.IH[of cur] Cons.prems by simp
    ultimately have "sorted_wrt (\<lambda>x y. key y < key x)
        (prev # cur # take (run_length cmp True cur rest) rest)"
      by (simp only: sorted_wrt2[OF tr])
    moreover have "run_length cmp True prev (cur # rest) = Suc (run_length cmp True cur rest)"
      using True by (simp add: Let_def)
    ultimately show ?thesis by (simp only: take_Suc_Cons)
  qed
qed

lemma filter_key_distinct:
  "distinct (map key xs) \<Longrightarrow> length (filter (\<lambda>x. key x = k) xs) \<le> 1"
  by (induction xs) (auto simp: filter_empty_conv image_iff)

lemma rev_short: "length xs \<le> 1 \<Longrightarrow> rev xs = xs"
  by (cases xs) auto

text \<open>
  A strictly descending run has no two elements of one key: reversing it sorts it and
  moves no element past an equal one.
\<close>

lemma reversed_run:
  assumes "sorted_wrt (\<lambda>x y. key y < key x) run"
  shows "sorted (map key (rev run))"
    and "filter (\<lambda>x. key x = k) (rev run) = filter (\<lambda>x. key x = k) run"
proof -
  have "sorted_wrt (\<lambda>x y. key x < key y) (rev run)"
    using assms by (simp add: sorted_wrt_rev)
  then have s: "sorted_wrt (<) (map key (rev run))"
    by (simp add: sorted_wrt_map)
  then show "sorted (map key (rev run))"
    by (rule strict_sorted_imp_sorted)
  from s have "distinct (map key (rev run))"
    by (simp add: strict_sorted_iff)
  then have "distinct (map key run)"
    by (simp add: rev_map[symmetric])
  then have "length (filter (\<lambda>x. key x = k) run) \<le> 1"
    by (rule filter_key_distinct)
  then have "rev (filter (\<lambda>x. key x = k) run) = filter (\<lambda>x. key x = k) run"
    by (rule rev_short)
  then show "filter (\<lambda>x. key x = k) (rev run) = filter (\<lambda>x. key x = k) run"
    by (simp add: rev_filter)
qed

subsection \<open>On a consistent comparison function the sort is the stable sort\<close>

lemma array_sort_keyed:
  assumes k: "keyed cmp key (set a)"
  shows "array_sort cmp a = sort_key key a"
proof (cases a)
  case Nil
  then show ?thesis by (simp add: array_sort_def)
next
  case c1: (Cons x xs)
  show ?thesis
  proof (cases xs)
    case Nil
    then show ?thesis using c1 by (simp add: array_sort_def)
  next
    case c2: (Cons y rest)
    let ?desc = "SortCompare (cmp y x) < 0"
    let ?m = "run_length cmp ?desc y rest"
    let ?n = "2 + ?m"
    let ?run = "take ?n a"
    let ?run' = "if ?desc then rev ?run else ?run"
    let ?out = "BinaryInsertionSort cmp ?run' (drop ?n a)"
    have a: "a = x # y # rest" using c1 c2 by simp
    have out: "array_sort cmp a = ?out"
      using a by (simp add: array_sort_def Let_def)
    have run: "?run = x # y # take ?m rest" using a by simp
    have ck: "(SortCompare (cmp y x) < 0) = (key y < key x)"
      using k a by (auto simp: keyed_def)
    have yS: "y \<in> set a" "set rest \<subseteq> set a" using a by auto
    have r: "sorted (map key ?run') \<and>
             (\<forall>k. filter (\<lambda>x. key x = k) ?run' = filter (\<lambda>x. key x = k) ?run)"
    proof (cases ?desc)
      case True
      have "sorted_wrt (\<lambda>x y. key y < key x) (y # take (run_length cmp True y rest) rest)"
        by (rule descending_run[OF k yS])
      moreover have tr: "transp (\<lambda>x y. key y < key x)" by (auto simp: transp_def)
      moreover have "key y < key x" using True ck by simp
      ultimately have "sorted_wrt (\<lambda>x y. key y < key x) (x # y # take ?m rest)"
        using True by (simp only: sorted_wrt2[OF tr] simp_thms)
      then have "sorted_wrt (\<lambda>x y. key y < key x) ?run"
        by (simp only: run)
      from reversed_run[OF this] True show ?thesis by simp
    next
      case False
      have "sorted (map key (y # take (run_length cmp False y rest) rest))"
        by (rule ascending_run[OF k yS])
      moreover have "key x \<le> key y" using False ck by simp
      ultimately have "sorted (map key (x # y # take ?m rest))"
        using False by (simp only: list.map sorted2 simp_thms)
      then have "sorted (map key ?run)"
        by (simp only: run)
      then show ?thesis using False by simp
    qed
    have sub: "set ?run' \<subseteq> set a" "set (drop ?n a) \<subseteq> set a"
      by (auto dest: in_set_takeD in_set_dropD)
    note b = BinaryInsertionSort_keyed[OF k sub conjunct1[OF r]]
    have st: "filter (\<lambda>x. key x = k) ?out = filter (\<lambda>x. key x = k) a" for k
    proof -
      have "filter (\<lambda>x. key x = k) ?out = filter (\<lambda>x. key x = k) (?run' @ drop ?n a)"
        using b[of k] by simp
      also have "\<dots> = filter (\<lambda>x. key x = k) ?run' @ filter (\<lambda>x. key x = k) (drop ?n a)"
        by (simp only: filter_append)
      also have "\<dots> = filter (\<lambda>x. key x = k) ?run @ filter (\<lambda>x. key x = k) (drop ?n a)"
        using r by simp
      also have "\<dots> = filter (\<lambda>x. key x = k) (?run @ drop ?n a)"
        by (simp only: filter_append)
      finally show ?thesis by (simp only: append_take_drop_id)
    qed
    have "sort_key key a = ?out"
    proof (rule properties_for_sort_key)
      show "mset ?out = mset a"
        using mset_array_sort[of cmp a] by (simp only: out)
      show "sorted (map key ?out)" using b[of 0] by simp
      show "filter (\<lambda>x. key k = key x) ?out = filter (\<lambda>x. key k = key x) a" for k
        using st[of "key k"] by (simp only: eq_commute[of "key k"])
    qed
    then show ?thesis by (simp only: out)
  qed
qed

subsection \<open>Sorting by date\<close>

text \<open>
  When no date is invalid, the comparison function of the scripts is consistent: it orders
  the elements by their time value, negated for \<^verbatim>\<open>newest\<close>. The result is then the one of
  the library's stable sort, which is the result of every conforming engine.
\<close>

lemma by_date_keyed:
  assumes "\<forall>x\<in>S. date_of parse x \<noteq> None"
  shows "keyed (by_date parse order)
           (\<lambda>a. if order = ''newest'' then - the (date_of parse a) else the (date_of parse a)) S"
  unfolding keyed_def
proof (intro ballI)
  fix x y assume "x \<in> S" "y \<in> S"
  then obtain dateA dateB where "date_of parse x = Some dateA" "date_of parse y = Some dateB"
    using assms by fastforce
  then show "(SortCompare (by_date parse order x y) < 0) =
     ((if order = ''newest'' then - the (date_of parse x) else the (date_of parse x))
       < (if order = ''newest'' then - the (date_of parse y) else the (date_of parse y)))"
    by (simp add: by_date_def SortCompare_def)
qed

lemma array_sort_valid:
  assumes "\<forall>x\<in>set xs. date_of parse x \<noteq> None"
  shows "array_sort (by_date parse order) xs
     = sort_key (\<lambda>a. if order = ''newest'' then - the (date_of parse a) else the (date_of parse a)) xs"
  by (rule array_sort_keyed[OF by_date_keyed[OF assms]])

lemma by_date_stable:
  assumes "\<forall>x\<in>set items. date_of parse x \<noteq> None"
  shows "filter (\<lambda>it. date_of parse it = k) (array_sort (by_date parse order) items)
     = filter (\<lambda>it. date_of parse it = k) items"
proof -
  let ?key = "\<lambda>a. if order = ''newest'' then - the (date_of parse a) else the (date_of parse a)"
  let ?k = "if order = ''newest'' then - the k else the k"
  have v: "\<forall>x\<in>set (sort_key ?key items). date_of parse x \<noteq> None"
    using assms by simp
  show ?thesis
  proof (cases k)
    case None
    then show ?thesis using assms v
      by (simp add: array_sort_valid[OF assms] filter_empty_conv[THEN iffD2])
  next
    case (Some t)
    have "filter (\<lambda>it. date_of parse it = k) (sort_key ?key items)
            = filter (\<lambda>it. ?key it = ?k) (sort_key ?key items)"
      using v Some by (intro filter_cong) auto
    also have "\<dots> = filter (\<lambda>it. ?key it = ?k) items"
      by (rule sort_key_stable)
    also have "\<dots> = filter (\<lambda>it. date_of parse it = k) items"
      using assms Some by (intro filter_cong) auto
    finally show ?thesis by (simp only: array_sort_valid[OF assms])
  qed
qed

section \<open>Properties of the filter loop\<close>

lemma append_items_ok:
  assumes "\<forall>it\<in>set xs. \<exists>b. shown it = Inr b"
  shows "append_items shown xs grid n =
     Inr (grid @ map (\<lambda>it. it\<lparr>display := (if shown it = Inr True then '''' else ''none'')\<rparr>) xs,
          n + length (filter (\<lambda>it. shown it = Inr True) xs))"
  using assms
proof (induction xs arbitrary: grid n)
  case Nil
  show ?case by simp
next
  case (Cons x xs)
  then obtain b where b: "shown x = Inr b" by auto
  from Cons have IH: "\<And>grid n. append_items shown xs grid n =
     Inr (grid @ map (\<lambda>it. it\<lparr>display := (if shown it = Inr True then '''' else ''none'')\<rparr>) xs,
          n + length (filter (\<lambda>it. shown it = Inr True) xs))" by simp
  show ?case using b by (cases b) (simp_all add: IH)
qed

lemma append_items_Inr:
  "append_items shown xs grid n = Inr r \<Longrightarrow> \<forall>it\<in>set xs. \<exists>b. shown it = Inr b"
proof (induction xs arbitrary: grid n)
  case Nil
  show ?case by simp
next
  case (Cons x xs)
  then show ?case by (auto split: sum.splits bool.splits)
qed

section \<open>Properties of category discovery\<close>

lemma remdups_append_mem:
  "c \<in> set zs \<Longrightarrow> remdups (ys @ c # zs) = remdups (ys @ zs)"
  by (induction ys) auto

lemma fold_set_add:
  "distinct seen \<Longrightarrow> fold (\<lambda>c s. set_add s c) cs seen = rev (remdups (rev (seen @ cs)))"
proof (induction cs arbitrary: seen)
  case Nil
  then show ?case by (simp add: distinct_remdups_id)
next
  case (Cons c cs)
  show ?case
  proof (cases "c \<in> set seen")
    case True
    then show ?thesis using Cons by (simp add: set_add_def remdups_append_mem)
  next
    case False
    then have "distinct (seen @ [c])" using Cons.prems by simp
    from Cons.IH[OF this] False show ?thesis by (simp add: set_add_def)
  qed
qed

lemma collect_categories_fold:
  "collect_categories items seen =
     fold (\<lambda>c s. set_add s c)
       (filter (\<lambda>c. c \<noteq> [] \<and> c \<noteq> ''none'') (List.map_filter data_category items)) seen"
  by (induction items arbitrary: seen) (auto simp: List.map_filter_simps split: option.splits)

lemma set_map_filter: "set (List.map_filter f xs) = {y. \<exists>x\<in>set xs. f x = Some y}"
  by (induction xs) (auto simp: List.map_filter_simps split: option.splits)

lemma collect_categories_first_seen:
  "collect_categories items [] =
     rev (remdups (rev (filter (\<lambda>c. c \<noteq> [] \<and> c \<noteq> ''none'') (List.map_filter data_category items))))"
  by (simp add: collect_categories_fold fold_set_add)

lemma set_collect_categories:
  "set (collect_categories items []) =
     {c. c \<noteq> [] \<and> c \<noteq> ''none'' \<and> (\<exists>it\<in>set items. data_category it = Some c)}"
  by (auto simp: collect_categories_first_seen set_map_filter)

lemma distinct_collect_categories: "distinct (collect_categories items [])"
  by (simp add: collect_categories_first_seen)

lemma plain_boxes:
  "\<forall>c\<in>set cats. boxes_of c = [(c, False)] \<Longrightarrow>
   concat (map boxes_of cats) = map (\<lambda>c. (c, False)) cats"
  by (induction cats) auto


section \<open>Properties of \<^verbatim>\<open>filterItems\<close>\<close>

lemma item_shown_Inr:
  "(\<exists>b. item_shown f it = Inr b) \<longleftrightarrow> searchTerm f = [] \<or> data_incident it \<noteq> None"
  by (auto simp: item_shown_def matchesSearch_def split: option.splits)

lemma item_shown_True:
  "item_shown f it = Inr True \<longleftrightarrow>
     (urgency f = [] \<or> (\<exists>u. data_urgency it = Some u \<and> u \<in> set (urgency f)))
     \<and> (categories f = [] \<or> (\<exists>c. data_category it = Some c \<and> c \<in> set (categories f)))
     \<and> (searchTerm f = [] \<or> (\<exists>s. data_incident it = Some s \<and> sublist (searchTerm f) s))"
  by (auto simp: item_shown_def matchesSearch_def matchesUrgency_def matchesCategory_def
        array_includes_def split: option.splits)

lemma item_shown_display [simp]: "item_shown f (it\<lparr>display := d\<rparr>) = item_shown f it"
  by (simp add: item_shown_def matchesSearch_def matchesUrgency_def matchesCategory_def
        split: option.splits)

lemma date_of_display [simp]: "date_of parse (it\<lparr>display := d\<rparr>) = date_of parse it"
  by (simp add: date_of_def)

lemma date_of_missing:
  "data_date it = None \<or> data_date it = Some [] \<Longrightarrow> date_of parse it = Some 0"
  by (auto simp: date_of_def)

text \<open>The result of \<^verbatim>\<open>filterItems\<close> in closed form, and when there is one.\<close>

lemma filterItems_ok:
  assumes "searchTerm (filters p) = [] \<or> (\<forall>it\<in>set (training_items p). data_incident it \<noteq> None)"
  shows "filterItems parse p =
    Inr (let items = array_sort (by_date parse (sortBy (filters p))) (training_items p);
             n = length (filter (\<lambda>it. item_shown (filters p) it = Inr True) items) in
         p\<lparr>training_items :=
              map (\<lambda>it. it\<lparr>display := (if item_shown (filters p) it = Inr True then '''' else ''none'')\<rparr>) items,
            visibleCount := n,
            noResults_display := (if n = 0 then ''block'' else ''none''),
            trainingGrid_display := (if n = 0 then ''none'' else '''')\<rparr>)"
proof -
  have "\<forall>it\<in>set (array_sort (by_date parse (sortBy (filters p))) (training_items p)).
          \<exists>b. item_shown (filters p) it = Inr b"
    using assms by (auto simp: item_shown_Inr set_array_sort)
  from append_items_ok[OF this] show ?thesis
    by (simp add: filterItems_def Let_def)
qed

lemma filterItems_Inr:
  assumes "filterItems parse p = Inr p'"
  shows "searchTerm (filters p) = [] \<or> (\<forall>it\<in>set (training_items p). data_incident it \<noteq> None)"
proof -
  from assms obtain r where
    "append_items (item_shown (filters p))
       (array_sort (by_date parse (sortBy (filters p))) (training_items p)) [] 0 = Inr r"
    by (auto simp: filterItems_def Let_def split: sum.splits)
  from append_items_Inr[OF this] show ?thesis
    by (auto simp: item_shown_Inr set_array_sort)
qed

lemma filterItems_result:
  assumes "filterItems parse p = Inr p'"
  shows "training_items p' =
           map (\<lambda>it. it\<lparr>display := (if item_shown (filters p) it = Inr True then '''' else ''none'')\<rparr>)
             (array_sort (by_date parse (sortBy (filters p))) (training_items p))"
    and "visibleCount p' =
           length (filter (\<lambda>it. item_shown (filters p) it = Inr True)
             (array_sort (by_date parse (sortBy (filters p))) (training_items p)))"
    and "noResults_display p' = (if visibleCount p' = 0 then ''block'' else ''none'')"
    and "trainingGrid_display p' = (if visibleCount p' = 0 then ''none'' else '''')"
    and "filters p' = filters p"
  using filterItems_ok[OF filterItems_Inr[OF assms], of parse] assms
  by (auto simp: Let_def)

lemma table_rows:
  "append_items (\<lambda>row. Inr (shown row)) xs [] 0 = Inr (rows', n) \<Longrightarrow>
   rows' = map (\<lambda>it. it\<lparr>display := (if shown it then '''' else ''none'')\<rparr>) xs"
  using append_items_ok[of xs "\<lambda>row. Inr (shown row)" "[]" 0] by auto

lemma filter_date_map_display:
  "filter (\<lambda>it. date_of parse it = k) (map (\<lambda>it. it\<lparr>display := f it\<rparr>) xs)
     = map (\<lambda>it. it\<lparr>display := f it\<rparr>) (filter (\<lambda>it. date_of parse it = k) xs)"
  by (induction xs) auto

lemma stable_after_marking:
  assumes "\<forall>x\<in>set xs. date_of parse x \<noteq> None"
    and "out = map (\<lambda>it. it\<lparr>display := f it\<rparr>) (array_sort (by_date parse order) xs)"
  shows "map (\<lambda>it. it\<lparr>display := ''''\<rparr>) (filter (\<lambda>it. date_of parse it = k) out)
       = map (\<lambda>it. it\<lparr>display := ''''\<rparr>) (filter (\<lambda>it. date_of parse it = k) xs)"
  by (simp add: assms(2) filter_date_map_display by_date_stable[OF assms(1)] comp_def)

lemma sorted_valid:
  assumes "\<forall>x\<in>set xs. date_of parse x \<noteq> None"
  shows "sorted (map (\<lambda>a. if order = ''newest'' then - the (date_of parse a) else the (date_of parse a))
           (array_sort (by_date parse order) xs))"
  by (simp add: array_sort_valid[OF assms])

lemma sorted_map_nth:
  "sorted (map f xs) \<Longrightarrow> i < j \<Longrightarrow> j < length xs \<Longrightarrow> f (xs ! i) \<le> f (xs ! j)"
  by (simp add: sorted_iff_nth_mono)

text \<open>
  In a collection without invalid dates, an element at the epoch and an element with a
  positive time value stand in the order of the sort.
\<close>

lemma epoch_position:
  assumes valid: "\<forall>x\<in>set xs. date_of parse x \<noteq> None"
    and ys: "ys = map (\<lambda>it. it\<lparr>display := f it\<rparr>) (array_sort (by_date parse order) xs)"
    and i: "i < length ys" and j: "j < length ys"
    and zero: "date_of parse (ys ! i) = Some 0"
    and pos: "date_of parse (ys ! j) = Some t" "0 < t"
  shows "(order = ''newest'' \<longrightarrow> j < i) \<and> (order \<noteq> ''newest'' \<longrightarrow> i < j)"
proof -
  let ?key = "\<lambda>a. if order = ''newest'' then - the (date_of parse a) else the (date_of parse a)"
  have "map ?key ys = map ?key (array_sort (by_date parse order) xs)"
    by (simp add: ys comp_def)
  then have s: "sorted (map ?key ys)"
    using sorted_valid[OF valid, of order] by simp
  have ne: "i \<noteq> j" using zero pos by auto
  show ?thesis
  proof (intro conjI impI)
    assume n: "order = ''newest''"
    show "j < i"
    proof (rule ccontr)
      assume "\<not> j < i"
      then have "i < j" using ne by simp
      from sorted_map_nth[OF s this j] show False using zero pos n by simp
    qed
  next
    assume n: "order \<noteq> ''newest''"
    show "i < j"
    proof (rule ccontr)
      assume "\<not> i < j"
      then have "j < i" using ne by simp
      from sorted_map_nth[OF s this i] show False using zero pos n by simp
    qed
  qed
qed

section \<open>Properties of the reset and of the listeners\<close>

lemma uncheck_all_idem: "uncheck_all (uncheck_all boxes) = uncheck_all boxes"
  by (simp add: uncheck_all_def)

lemma badge_count_default: "badge_count default_filters = 0"
  by (simp add: badge_count_def default_filters_def)

lemma exclusive_all_changed: "exclusive (all_changed g)"
  by (auto simp: exclusive_def all_changed_def uncheck_all_def Let_def)

lemma exclusive_cb_changed:
  assumes e: "exclusive g"
  shows "exclusive (cb_changed i g)"
proof (cases "i < length (cbs g) \<and> snd (cbs g ! i)")
  case True
  then have "cb_changed i g = g\<lparr>cbs := (cbs g)[i := (fst (cbs g ! i), False)]\<rparr>"
    by (simp add: cb_changed_def)
  moreover have "set ((cbs g)[i := (fst (cbs g ! i), False)])
                   \<subseteq> insert (fst (cbs g ! i), False) (set (cbs g))"
    by (rule set_update_subset_insert)
  ultimately show ?thesis using e by (auto simp: exclusive_def)
next
  case False
  then show ?thesis using e by (auto simp: cb_changed_def exclusive_def Let_def)
qed

lemma exclusive_clear:
  "exclusive (urgency_group (clearAllFilters p)) \<and> exclusive (category_group (clearAllFilters p))"
  by (auto simp: clearAllFilters_def updateFilterBadge_def Let_def exclusive_def uncheck_all_def)

lemma exclusive_handle:
  assumes "exclusive (urgency_group p) \<and> exclusive (category_group p)"
  shows "exclusive (urgency_group (handle e p)) \<and> exclusive (category_group (handle e p))"
proof (cases e)
  case UrgAllChange
  then show ?thesis using assms by (simp add: exclusive_all_changed)
next
  case (UrgencyChange i)
  then show ?thesis using assms by (simp add: exclusive_cb_changed)
next
  case CatAllChange
  then show ?thesis using assms by (simp add: exclusive_all_changed)
next
  case (CategoryChange i)
  then show ?thesis using assms by (simp add: exclusive_cb_changed)
next
  case ClearClick
  then show ?thesis by (simp add: exclusive_clear)
qed

lemma exclusive_settle:
  "exclusive (urgency_group p) \<and> exclusive (category_group p) \<Longrightarrow>
   exclusive (urgency_group (settle events p)) \<and> exclusive (category_group (settle events p))"
  unfolding settle_def
proof (induction events arbitrary: p)
  case Nil
  then show ?case by simp
next
  case (Cons e events)
  from exclusive_handle[OF Cons.prems]
  have "exclusive (urgency_group (handle e p)) \<and> exclusive (category_group (handle e p))" .
  from Cons.IH[OF this] show ?case by simp
qed

lemma applyFilters_ok:
  assumes "searchTerm (filters p) = [] \<or> (\<forall>it\<in>set (training_items p). data_incident it \<noteq> None)"
  shows "\<exists>p'. applyFilters parse p = Inr p'
     \<and> filters p' = (filters p)\<lparr>
            urgency := checked_values (cbs (urgency_group p)),
            categories := checked_values (cbs (category_group p)),
            sortBy := (case sortBy_checked p of None \<Rightarrow> ''newest'' | Some v \<Rightarrow> v)\<rparr>
     \<and> filter_count_display p' = (if 0 < badge_count (filters p') then ''inline'' else ''none'')
     \<and> (0 < badge_count (filters p') \<longrightarrow> filter_count_text p' = badge_count (filters p'))"
proof -
  let ?f = "(filters p)\<lparr>
            urgency := checked_values (cbs (urgency_group p)),
            categories := checked_values (cbs (category_group p)),
            sortBy := (case sortBy_checked p of None \<Rightarrow> ''newest'' | Some v \<Rightarrow> v)\<rparr>"
  have "searchTerm (filters (p\<lparr>filters := ?f\<rparr>)) = []
        \<or> (\<forall>it\<in>set (training_items (p\<lparr>filters := ?f\<rparr>)). data_incident it \<noteq> None)"
    using assms by simp
  from filterItems_ok[OF this, of parse] show ?thesis
    by (simp add: applyFilters_def Let_def updateFilterBadge_def)
qed

section \<open>Resetting the filters\<close>

text \<open>
  C5. \<^verbatim>\<open>clearAllFilters\<close> is idempotent: run twice it leaves the page, and with it the filter
  state, as one run does. The filter state after it is the default one (no urgency, no
  category, \<^verbatim>\<open>newest\<close>, empty search term), also when it already was, the count of the
  badge is then 0 and the badge is hidden.
\<close>

theorem clear_idempotent:
  "clearAllFilters (clearAllFilters p) = clearAllFilters p
   \<and> filters (clearAllFilters p) = default_filters
   \<and> filters (clearAllFilters (p\<lparr>filters := default_filters\<rparr>)) = filters (p\<lparr>filters := default_filters\<rparr>)
   \<and> badge_count (filters (clearAllFilters p)) = 0
   \<and> filter_count_display (clearAllFilters p) = ''none''"
  by (simp add: clearAllFilters_def updateFilterBadge_def badge_count_default uncheck_all_idem
        comp_def option.map_comp)

theorem clear_idempotent_witness:
  "badge_count (filters ((loaded_page [disk_card])
       \<lparr>filters := \<lparr>urgency = [''Critical''], categories = [], sortBy = ''oldest'', searchTerm = ''disk''\<rparr>\<rparr>)) = 3
   \<and> filters (clearAllFilters ((loaded_page [disk_card])
       \<lparr>filters := \<lparr>urgency = [''Critical''], categories = [], sortBy = ''oldest'', searchTerm = ''disk''\<rparr>\<rparr>))
       = default_filters
   \<and> clearAllFilters (clearAllFilters ((loaded_page [disk_card])
       \<lparr>filters := \<lparr>urgency = [''Critical''], categories = [], sortBy = ''oldest'', searchTerm = ''disk''\<rparr>\<rparr>))
       = clearAllFilters ((loaded_page [disk_card])
       \<lparr>filters := \<lparr>urgency = [''Critical''], categories = [], sortBy = ''oldest'', searchTerm = ''disk''\<rparr>\<rparr>)"
proof -
  have "badge_count (filters ((loaded_page [disk_card])
       \<lparr>filters := \<lparr>urgency = [''Critical''], categories = [], sortBy = ''oldest'', searchTerm = ''disk''\<rparr>\<rparr>)) = 3"
    by code_simp
  with clear_idempotent [of "(loaded_page [disk_card])
       \<lparr>filters := \<lparr>urgency = [''Critical''], categories = [], sortBy = ''oldest'', searchTerm = ''disk''\<rparr>\<rparr>"]
  show ?thesis by simp
qed

section \<open>The count of active filters\<close>

text \<open>
  C6. The count of \<^verbatim>\<open>updateFilterBadge\<close> is the number of selected urgencies plus the number
  of selected categories, plus one when the sort order is not \<^verbatim>\<open>newest\<close>, plus one when the
  search term is not empty; the selections are arrays, and where no value occurs twice in
  them their lengths are the sizes of the sets. The badge shows that count when it is
  positive and is hidden when it is 0. On a page in the default filter state where only
  the box \<^verbatim>\<open>Critical\<close> and the radio \<^verbatim>\<open>oldest\<close> are checked, \<^verbatim>\<open>applyFilters\<close> returns and the count
  is 2.
\<close>

theorem badge_shows_count:
  "badge_count f =
     length (urgency f) + length (categories f)
       + (if sortBy f \<noteq> ''newest'' then 1 else 0) + (if searchTerm f \<noteq> '''' then 1 else 0)
   \<and> (distinct (urgency f) \<and> distinct (categories f) \<longrightarrow>
        badge_count f =
          card (set (urgency f)) + card (set (categories f))
            + (if sortBy f \<noteq> ''newest'' then 1 else 0) + (if searchTerm f \<noteq> '''' then 1 else 0))
   \<and> (0 < badge_count (filters q) \<longrightarrow>
        filter_count_display (updateFilterBadge q) = ''inline''
        \<and> filter_count_text (updateFilterBadge q) = badge_count (filters q))
   \<and> (badge_count (filters p) = 0 \<longrightarrow> filter_count_display (updateFilterBadge p) = ''none'')
   \<and> (filters p = default_filters
        \<and> checked_values (cbs (urgency_group p)) = [''Critical'']
        \<and> checked_values (cbs (category_group p)) = []
        \<and> sortBy_checked p = Some ''oldest''
       \<longrightarrow> (\<exists>p'. applyFilters parse p = Inr p' \<and> badge_count (filters p') = 2
              \<and> filter_count_text p' = 2 \<and> filter_count_display p' = ''inline''))"
proof (intro conjI impI)
  show "badge_count f =
     length (urgency f) + length (categories f)
       + (if sortBy f \<noteq> ''newest'' then 1 else 0) + (if searchTerm f \<noteq> '''' then 1 else 0)"
    by (simp add: badge_count_def)
next
  assume "distinct (urgency f) \<and> distinct (categories f)"
  then show "badge_count f =
          card (set (urgency f)) + card (set (categories f))
            + (if sortBy f \<noteq> ''newest'' then 1 else 0) + (if searchTerm f \<noteq> '''' then 1 else 0)"
    by (simp add: badge_count_def distinct_card)
next
  assume "0 < badge_count (filters q)"
  then show "filter_count_display (updateFilterBadge q) = ''inline''"
    and "filter_count_text (updateFilterBadge q) = badge_count (filters q)"
    by (simp_all add: updateFilterBadge_def)
next
  assume "badge_count (filters p) = 0"
  then show "filter_count_display (updateFilterBadge p) = ''none''"
    by (simp add: updateFilterBadge_def)
next
  assume h: "filters p = default_filters
        \<and> checked_values (cbs (urgency_group p)) = [''Critical'']
        \<and> checked_values (cbs (category_group p)) = []
        \<and> sortBy_checked p = Some ''oldest''"
  then have "searchTerm (filters p) = [] \<or> (\<forall>it\<in>set (training_items p). data_incident it \<noteq> None)"
    by (simp add: default_filters_def)
  from applyFilters_ok[OF this, of parse] obtain p' where
    p': "applyFilters parse p = Inr p'"
      "filters p' = (filters p)\<lparr>
            urgency := checked_values (cbs (urgency_group p)),
            categories := checked_values (cbs (category_group p)),
            sortBy := (case sortBy_checked p of None \<Rightarrow> ''newest'' | Some v \<Rightarrow> v)\<rparr>"
      "filter_count_display p' = (if 0 < badge_count (filters p') then ''inline'' else ''none'')"
      "0 < badge_count (filters p') \<longrightarrow> filter_count_text p' = badge_count (filters p')"
    by auto
  have "badge_count (filters p') = 2"
    using h by (simp add: p'(2) badge_count_def default_filters_def)
  with p' show "\<exists>p'. applyFilters parse p = Inr p' \<and> badge_count (filters p') = 2
              \<and> filter_count_text p' = 2 \<and> filter_count_display p' = ''inline''"
    by auto
qed

text \<open>
  On the loaded page the box \<^verbatim>\<open>Critical\<close> is clicked and the radio \<^verbatim>\<open>oldest\<close> checked: the count
  is 0 before \<^verbatim>\<open>applyFilters\<close> and 2 after it.
\<close>

theorem badge_shows_count_witness:
  "filters ((handle (UrgencyChange 0) (loaded_page [disk_card, router_card]))\<lparr>sortBy_checked := Some ''oldest''\<rparr>)
      = default_filters
   \<and> checked_values (cbs (urgency_group
        ((handle (UrgencyChange 0) (loaded_page [disk_card, router_card]))\<lparr>sortBy_checked := Some ''oldest''\<rparr>)))
      = [''Critical'']
   \<and> checked_values (cbs (category_group
        ((handle (UrgencyChange 0) (loaded_page [disk_card, router_card]))\<lparr>sortBy_checked := Some ''oldest''\<rparr>)))
      = []
   \<and> badge_count (filters
        ((handle (UrgencyChange 0) (loaded_page [disk_card, router_card]))\<lparr>sortBy_checked := Some ''oldest''\<rparr>))
      = 0
   \<and> applyFilters iso_dates
          ((handle (UrgencyChange 0) (loaded_page [disk_card, router_card]))\<lparr>sortBy_checked := Some ''oldest''\<rparr>)
      = Inr ((handle (UrgencyChange 0) (loaded_page [disk_card, router_card]))
              \<lparr>sortBy_checked := Some ''oldest'',
               filters := \<lparr>urgency = [''Critical''], categories = [], sortBy = ''oldest'', searchTerm = ''''\<rparr>,
               training_items := [disk_card\<lparr>display := ''none''\<rparr>, router_card],
               visibleCount := 1,
               filter_count_text := 2,
               filter_count_display := ''inline''\<rparr>)
   \<and> distinct [''Critical'']
   \<and> badge_count \<lparr>urgency = [''Critical''], categories = [], sortBy = ''oldest'', searchTerm = ''''\<rparr>
      = card (set [''Critical'']) + card (set ([] :: string list)) + 1 + 0
   \<and> 0 < badge_count \<lparr>urgency = [''Critical''], categories = [], sortBy = ''oldest'', searchTerm = ''''\<rparr>
   \<and> (\<exists>p'. applyFilters iso_dates
          ((handle (UrgencyChange 0) (loaded_page [disk_card, router_card]))\<lparr>sortBy_checked := Some ''oldest''\<rparr>)
          = Inr p'
        \<and> badge_count (filters p') = 2 \<and> filter_count_text p' = 2
        \<and> filter_count_display p' = ''inline'')"
proof -
  let ?p = "(handle (UrgencyChange 0) (loaded_page [disk_card, router_card]))\<lparr>sortBy_checked := Some ''oldest''\<rparr>"
  let ?f = "\<lparr>urgency = [''Critical''], categories = [], sortBy = ''oldest'', searchTerm = ''''\<rparr>"
  let ?q = "?p\<lparr>filters := ?f\<rparr>"
  have h: "filters ?p = default_filters
        \<and> checked_values (cbs (urgency_group ?p)) = [''Critical'']
        \<and> checked_values (cbs (category_group ?p)) = []
        \<and> sortBy_checked ?p = Some ''oldest''"
    by code_simp
  have z: "badge_count (filters ?p) = 0"
    by code_simp
  have a: "applyFilters iso_dates ?p
      = Inr (?p\<lparr>filters := ?f,
               training_items := [disk_card\<lparr>display := ''none''\<rparr>, router_card],
               visibleCount := 1,
               filter_count_text := 2,
               filter_count_display := ''inline''\<rparr>)"
    by code_simp
  have d: "distinct (urgency ?f) \<and> distinct (categories ?f)"
    by simp
  have g: "0 < badge_count (filters ?q)"
    by (simp add: badge_count_def)
  from badge_shows_count [of ?f ?q ?p iso_dates] h z a d g show ?thesis
    by simp
qed

section \<open>Totality of \<^verbatim>\<open>filterItems\<close>\<close>

text \<open>
  C1. On the records of the specification, which all have a \<^verbatim>\<open>searchText\<close>, \<^verbatim>\<open>filterItems\<close>
  returns for every collection of cards, every filter state and every date parser; the
  grid then holds as many cards as before and \<^verbatim>\<open>visibleCount\<close> is at most that number.
  \<^verbatim>\<open>applyFilters\<close> and the search listener, which run it, return as well. On a page without
  cards \<^verbatim>\<open>filterItems\<close> returns with no card in the grid and \<^verbatim>\<open>visibleCount\<close> 0.
\<close>

theorem filterItems_total:
  "((\<forall>it\<in>set (training_items p). has_searchText it) \<longrightarrow>
      (\<exists>p'. filterItems parse p = Inr p'
            \<and> length (training_items p') = length (training_items p)
            \<and> visibleCount p' \<le> length (training_items p))
      \<and> (\<exists>p'. applyFilters parse p = Inr p')
      \<and> (\<exists>p'. search_input parse toLowerCase v p = Inr p'))
   \<and> (training_items p = [] \<longrightarrow>
        (\<exists>p'. filterItems parse p = Inr p' \<and> training_items p' = [] \<and> visibleCount p' = 0))"
proof (intro conjI impI)
  assume h: "\<forall>it\<in>set (training_items p). has_searchText it"
  then have a: "searchTerm (filters p) = [] \<or> (\<forall>it\<in>set (training_items p). data_incident it \<noteq> None)"
    by (simp add: has_searchText_def)
  have "length (filter (\<lambda>it. item_shown (filters p) it = Inr True)
            (array_sort (by_date parse (sortBy (filters p))) (training_items p)))
          \<le> length (array_sort (by_date parse (sortBy (filters p))) (training_items p))"
    by (rule length_filter_le)
  then show "\<exists>p'. filterItems parse p = Inr p'
            \<and> length (training_items p') = length (training_items p)
            \<and> visibleCount p' \<le> length (training_items p)"
    by (simp add: filterItems_ok[OF a] Let_def length_array_sort)
  from applyFilters_ok[OF a] show "\<exists>p'. applyFilters parse p = Inr p'"
    by blast
  show "\<exists>p'. search_input parse toLowerCase v p = Inr p'"
  proof (cases "searchInput p")
    case None
    then show ?thesis by (simp add: search_input_def)
  next
    case (Some old)
    let ?a = "p\<lparr>searchInput := Some v, filters := (filters p)\<lparr>searchTerm := toLowerCase v\<rparr>\<rparr>"
    have "searchTerm (filters ?a) = [] \<or> (\<forall>it\<in>set (training_items ?a). data_incident it \<noteq> None)"
      using h by (simp add: has_searchText_def)
    from filterItems_ok[OF this, of parse] show ?thesis
      using Some by (simp add: search_input_def)
  qed
next
  assume e: "training_items p = []"
  then have "searchTerm (filters p) = [] \<or> (\<forall>it\<in>set (training_items p). data_incident it \<noteq> None)"
    by simp
  from filterItems_ok[OF this] e
  show "\<exists>p'. filterItems parse p = Inr p' \<and> training_items p' = [] \<and> visibleCount p' = 0"
    by (simp add: Let_def)
qed

text \<open>
  Two cards and the search term \<^verbatim>\<open>router\<close>: one card is shown. The page without cards: the
  grid stays empty.
\<close>

theorem filterItems_total_witness:
  "map has_searchText (training_items ((loaded_page [disk_card, router_card])
        \<lparr>filters := default_filters\<lparr>searchTerm := ''router''\<rparr>\<rparr>))
     = [True, True]
   \<and> filterItems iso_dates ((loaded_page [disk_card, router_card])
        \<lparr>filters := default_filters\<lparr>searchTerm := ''router''\<rparr>\<rparr>)
     = Inr ((loaded_page [disk_card, router_card])
        \<lparr>filters := default_filters\<lparr>searchTerm := ''router''\<rparr>,
         training_items := [router_card, disk_card\<lparr>display := ''none''\<rparr>],
         visibleCount := 1\<rparr>)
   \<and> (\<exists>p'. filterItems iso_dates ((loaded_page [disk_card, router_card])
        \<lparr>filters := default_filters\<lparr>searchTerm := ''router''\<rparr>\<rparr>) = Inr p'
         \<and> length (training_items p') = 2 \<and> visibleCount p' \<le> 2)
   \<and> (\<exists>p'. applyFilters iso_dates ((loaded_page [disk_card, router_card])
        \<lparr>filters := default_filters\<lparr>searchTerm := ''router''\<rparr>\<rparr>) = Inr p')
   \<and> (\<exists>p'. search_input iso_dates ascii_toLowerCase ''Node'' ((loaded_page [disk_card, router_card])
        \<lparr>filters := default_filters\<lparr>searchTerm := ''router''\<rparr>\<rparr>) = Inr p')
   \<and> training_items (loaded_page []) = []
   \<and> (\<exists>p'. filterItems iso_dates (loaded_page []) = Inr p' \<and> training_items p' = []
         \<and> visibleCount p' = 0)"
proof -
  let ?p = "(loaded_page [disk_card, router_card])
        \<lparr>filters := default_filters\<lparr>searchTerm := ''router''\<rparr>\<rparr>"
  have a: "\<forall>it\<in>set (training_items ?p). has_searchText it"
    by code_simp
  have b: "training_items (loaded_page []) = []"
    by code_simp
  have c: "map has_searchText (training_items ?p) = [True, True]"
    by code_simp
  have d: "length (training_items ?p) = 2"
    by code_simp
  have e: "filterItems iso_dates ?p
     = Inr ((loaded_page [disk_card, router_card])
        \<lparr>filters := default_filters\<lparr>searchTerm := ''router''\<rparr>,
         training_items := [router_card, disk_card\<lparr>display := ''none''\<rparr>],
         visibleCount := 1\<rparr>)"
    by code_simp
  from filterItems_total [of ?p iso_dates ascii_toLowerCase "''Node''"]
    filterItems_total [of "loaded_page []" iso_dates] a b c d e
  show ?thesis by simp
qed

section \<open>Which cards are shown\<close>

text \<open>
  C2. When \<^verbatim>\<open>filterItems\<close> returns, the grid holds the cards of the page again, and a card is
  displayed if and only if the selected urgencies are empty or contain its urgency, the
  selected categories are empty or contain its category, and the search term is empty or
  a substring of its \<^verbatim>\<open>data-incident\<close>; the other cards have \<^verbatim>\<open>display = 'none'\<close>, and
  \<^verbatim>\<open>visibleCount\<close> is the number of displayed cards.

  The search listener stores the text \<open>v\<close> of the search box lower-cased and runs
  \<^verbatim>\<open>filterItems\<close>. On the records of the specification, whose \<^verbatim>\<open>searchText\<close> is in lower
  case, it returns, and the search test is the substring test without regard to case: a
  card passes it if and only if the lower-cased text is empty or a substring of the
  lower-cased \<^verbatim>\<open>data-incident\<close>. Two texts that differ in case only give the same grid.
\<close>

theorem visible_iff_predicates:
  "(filterItems parse p = Inr p' \<longrightarrow>
      mset (map (\<lambda>it. it\<lparr>display := ''''\<rparr>) (training_items p'))
        = mset (map (\<lambda>it. it\<lparr>display := ''''\<rparr>) (training_items p))
      \<and> (\<forall>it\<in>set (training_items p').
            (display it = '''' \<or> display it = ''none'')
            \<and> (display it = '''' \<longleftrightarrow>
                 (urgency (filters p) = [] \<or>
                    (\<exists>u. data_urgency it = Some u \<and> u \<in> set (urgency (filters p))))
                 \<and> (categories (filters p) = [] \<or>
                    (\<exists>c. data_category it = Some c \<and> c \<in> set (categories (filters p))))
                 \<and> (searchTerm (filters p) = [] \<or>
                    (\<exists>s. data_incident it = Some s \<and> sublist (searchTerm (filters p)) s))))
      \<and> visibleCount p' = length (filter (\<lambda>it. display it = '''') (training_items p')))
   \<and> (searchInput p \<noteq> None
        \<and> (\<forall>it\<in>set (training_items p). lower_cased_searchText toLowerCase it) \<longrightarrow>
        (\<exists>q. search_input parse toLowerCase v p = Inr q
           \<and> searchTerm (filters q) = toLowerCase v
           \<and> (\<forall>it\<in>set (training_items q).
                 display it = '''' \<longleftrightarrow>
                   (urgency (filters p) = [] \<or>
                      (\<exists>u. data_urgency it = Some u \<and> u \<in> set (urgency (filters p))))
                   \<and> (categories (filters p) = [] \<or>
                      (\<exists>c. data_category it = Some c \<and> c \<in> set (categories (filters p))))
                   \<and> (toLowerCase v = [] \<or>
                      (\<exists>s. data_incident it = Some s
                           \<and> sublist (toLowerCase v) (toLowerCase s))))))
   \<and> (toLowerCase v = toLowerCase w
        \<and> search_input parse toLowerCase v p = Inr q1
        \<and> search_input parse toLowerCase w p = Inr q2 \<longrightarrow>
        training_items q1 = training_items q2 \<and> visibleCount q1 = visibleCount q2
        \<and> filters q1 = filters q2)"
proof -
  have marks: "\<forall>it\<in>set (training_items b).
            (display it = '''' \<or> display it = ''none'')
            \<and> (display it = '''' \<longleftrightarrow>
                 (urgency (filters a) = [] \<or>
                    (\<exists>u. data_urgency it = Some u \<and> u \<in> set (urgency (filters a))))
                 \<and> (categories (filters a) = [] \<or>
                    (\<exists>c. data_category it = Some c \<and> c \<in> set (categories (filters a))))
                 \<and> (searchTerm (filters a) = [] \<or>
                    (\<exists>s. data_incident it = Some s \<and> sublist (searchTerm (filters a)) s)))"
    if r: "filterItems parse a = Inr b" for a b
  proof
    fix it assume "it \<in> set (training_items b)"
    then obtain c where c: "it = c\<lparr>display := (if item_shown (filters a) c = Inr True then '''' else ''none'')\<rparr>"
      by (auto simp: filterItems_result(1)[OF r])
    have "display it = '''' \<longleftrightarrow> item_shown (filters a) it = Inr True"
      by (simp add: c)
    moreover have "display it = '''' \<or> display it = ''none''" by (simp add: c)
    ultimately show "(display it = '''' \<or> display it = ''none'')
            \<and> (display it = '''' \<longleftrightarrow>
                 (urgency (filters a) = [] \<or>
                    (\<exists>u. data_urgency it = Some u \<and> u \<in> set (urgency (filters a))))
                 \<and> (categories (filters a) = [] \<or>
                    (\<exists>c. data_category it = Some c \<and> c \<in> set (categories (filters a))))
                 \<and> (searchTerm (filters a) = [] \<or>
                    (\<exists>s. data_incident it = Some s \<and> sublist (searchTerm (filters a)) s)))"
      by (simp only: item_shown_True)
  qed
  show ?thesis
  proof (intro conjI impI)
    assume r: "filterItems parse p = Inr p'"
    let ?m = "\<lambda>it. it\<lparr>display := (if item_shown (filters p) it = Inr True then '''' else ''none'')\<rparr>"
    let ?s = "array_sort (by_date parse (sortBy (filters p))) (training_items p)"
    have "map (\<lambda>it. it\<lparr>display := ''''\<rparr>) (training_items p') = map (\<lambda>it. it\<lparr>display := ''''\<rparr>) ?s"
      by (simp add: filterItems_result(1)[OF r] comp_def)
    then show "mset (map (\<lambda>it. it\<lparr>display := ''''\<rparr>) (training_items p'))
             = mset (map (\<lambda>it. it\<lparr>display := ''''\<rparr>) (training_items p))"
      by (simp add: mset_array_sort)
    from marks[OF r] show "\<forall>it\<in>set (training_items p').
            (display it = '''' \<or> display it = ''none'')
            \<and> (display it = '''' \<longleftrightarrow>
                 (urgency (filters p) = [] \<or>
                    (\<exists>u. data_urgency it = Some u \<and> u \<in> set (urgency (filters p))))
                 \<and> (categories (filters p) = [] \<or>
                    (\<exists>c. data_category it = Some c \<and> c \<in> set (categories (filters p))))
                 \<and> (searchTerm (filters p) = [] \<or>
                    (\<exists>s. data_incident it = Some s \<and> sublist (searchTerm (filters p)) s)))" .
    have "filter (\<lambda>it. display it = '''') (map ?m ?s)
            = map ?m (filter (\<lambda>it. item_shown (filters p) it = Inr True) ?s)"
      by (simp add: filter_map comp_def)
    then show "visibleCount p' = length (filter (\<lambda>it. display it = '''') (training_items p'))"
      by (simp add: filterItems_result(1,2)[OF r])
  next
    assume h: "searchInput p \<noteq> None
        \<and> (\<forall>it\<in>set (training_items p). lower_cased_searchText toLowerCase it)"
    let ?a = "p\<lparr>searchInput := Some v, filters := (filters p)\<lparr>searchTerm := toLowerCase v\<rparr>\<rparr>"
    have lc: "\<exists>s. data_incident it = Some s \<and> toLowerCase s = s" if "it \<in> set (training_items p)" for it
      using h that by (auto simp: lower_cased_searchText_def split: option.splits)
    then have "searchTerm (filters ?a) = [] \<or> (\<forall>it\<in>set (training_items ?a). data_incident it \<noteq> None)"
      by auto
    from filterItems_ok[OF this, of parse] obtain q where r: "filterItems parse ?a = Inr q"
      by blast
    then have s: "search_input parse toLowerCase v p = Inr q"
      using h by (auto simp: search_input_def)
    have t: "searchTerm (filters q) = toLowerCase v"
      using filterItems_result(5)[OF r] by simp
    have u: "display it = '''' \<longleftrightarrow>
                   (urgency (filters p) = [] \<or>
                      (\<exists>u. data_urgency it = Some u \<and> u \<in> set (urgency (filters p))))
                   \<and> (categories (filters p) = [] \<or>
                      (\<exists>c. data_category it = Some c \<and> c \<in> set (categories (filters p))))
                   \<and> (toLowerCase v = [] \<or>
                      (\<exists>s. data_incident it = Some s
                           \<and> sublist (toLowerCase v) (toLowerCase s)))"
      if m: "it \<in> set (training_items q)" for it
    proof -
      from m obtain c where c: "c \<in> set (training_items p)"
        and it: "it = c\<lparr>display := (if item_shown (filters ?a) c = Inr True then '''' else ''none'')\<rparr>"
        by (auto simp: filterItems_result(1)[OF r] set_array_sort)
      from lc[OF c] obtain s where s: "data_incident it = Some s" "toLowerCase s = s"
        by (auto simp: it)
      from marks[OF r] m s show ?thesis by simp
    qed
    from s t u show "\<exists>q. search_input parse toLowerCase v p = Inr q
           \<and> searchTerm (filters q) = toLowerCase v
           \<and> (\<forall>it\<in>set (training_items q).
                 display it = '''' \<longleftrightarrow>
                   (urgency (filters p) = [] \<or>
                      (\<exists>u. data_urgency it = Some u \<and> u \<in> set (urgency (filters p))))
                   \<and> (categories (filters p) = [] \<or>
                      (\<exists>c. data_category it = Some c \<and> c \<in> set (categories (filters p))))
                   \<and> (toLowerCase v = [] \<or>
                      (\<exists>s. data_incident it = Some s
                           \<and> sublist (toLowerCase v) (toLowerCase s))))"
      by blast
  next
    assume h: "toLowerCase v = toLowerCase w
        \<and> search_input parse toLowerCase v p = Inr q1
        \<and> search_input parse toLowerCase w p = Inr q2"
    then have eq: "toLowerCase w = toLowerCase v"
      and s1: "search_input parse toLowerCase v p = Inr q1"
      and s2: "search_input parse toLowerCase w p = Inr q2"
      by simp_all
    have "training_items q1 = training_items q2 \<and> visibleCount q1 = visibleCount q2
          \<and> filters q1 = filters q2"
    proof (cases "searchInput p")
      case None
      then have "q1 = p" "q2 = p" using s1 s2 by (simp_all add: search_input_def)
      then show ?thesis by simp
    next
      case (Some old)
      let ?a = "p\<lparr>searchInput := Some v, filters := (filters p)\<lparr>searchTerm := toLowerCase v\<rparr>\<rparr>"
      let ?b = "p\<lparr>searchInput := Some w, filters := (filters p)\<lparr>searchTerm := toLowerCase v\<rparr>\<rparr>"
      from s1 Some have r1: "filterItems parse ?a = Inr q1"
        by (simp add: search_input_def)
      from s2 Some have r2: "filterItems parse ?b = Inr q2"
        by (simp add: search_input_def eq)
      show ?thesis
        by (simp add: filterItems_result(1,2,5)[OF r1] filterItems_result(1,2,5)[OF r2])
    qed
    then show "training_items q1 = training_items q2" "visibleCount q1 = visibleCount q2"
      "filters q1 = filters q2"
      by simp_all
  qed
qed

text \<open>
  The card with the text \<^verbatim>\<open>disk failure on node 7\<close> is shown after \<^verbatim>\<open>DISK\<close> is typed into the
  search box, as after \<^verbatim>\<open>disk\<close> is, and hidden after \<^verbatim>\<open>node 9\<close> is.
\<close>

theorem visible_iff_predicates_witness:
  "filterItems iso_dates (loaded_page [disk_card, router_card])
     = Inr ((loaded_page [disk_card, router_card])\<lparr>training_items := [router_card, disk_card]\<rparr>)
   \<and> searchInput (loaded_page [disk_card, router_card]) \<noteq> None
   \<and> map (lower_cased_searchText ascii_toLowerCase) (training_items (loaded_page [disk_card, router_card]))
     = [True, True]
   \<and> search_input iso_dates ascii_toLowerCase ''DISK'' (loaded_page [disk_card, router_card])
     = Inr ((loaded_page [disk_card, router_card])
          \<lparr>filters := default_filters\<lparr>searchTerm := ''disk''\<rparr>,
           searchInput := Some ''DISK'',
           training_items := [router_card\<lparr>display := ''none''\<rparr>, disk_card],
           visibleCount := 1\<rparr>)
   \<and> search_input iso_dates ascii_toLowerCase ''disk'' (loaded_page [disk_card, router_card])
     = Inr ((loaded_page [disk_card, router_card])
          \<lparr>filters := default_filters\<lparr>searchTerm := ''disk''\<rparr>,
           searchInput := Some ''disk'',
           training_items := [router_card\<lparr>display := ''none''\<rparr>, disk_card],
           visibleCount := 1\<rparr>)
   \<and> search_input iso_dates ascii_toLowerCase ''node 9'' (loaded_page [disk_card, router_card])
     = Inr ((loaded_page [disk_card, router_card])
          \<lparr>filters := default_filters\<lparr>searchTerm := ''node 9''\<rparr>,
           searchInput := Some ''node 9'',
           training_items := [router_card\<lparr>display := ''none''\<rparr>, disk_card\<lparr>display := ''none''\<rparr>],
           visibleCount := 0, noResults_display := ''block'', trainingGrid_display := ''none''\<rparr>)
   \<and> ascii_toLowerCase ''DISK'' = ascii_toLowerCase ''disk''
   \<and> ascii_toLowerCase ''DISK'' = ''disk''
   \<and> sublist (ascii_toLowerCase ''DISK'') (ascii_toLowerCase ''disk failure on node 7'')
   \<and> \<not> sublist (ascii_toLowerCase ''node 9'') (ascii_toLowerCase ''disk failure on node 7'')
   \<and> (\<exists>q. search_input iso_dates ascii_toLowerCase ''DISK'' (loaded_page [disk_card, router_card]) = Inr q
         \<and> searchTerm (filters q) = ascii_toLowerCase ''DISK'')"
proof -
  let ?p = "loaded_page [disk_card, router_card]"
  have a: "filterItems iso_dates ?p = Inr (?p\<lparr>training_items := [router_card, disk_card]\<rparr>)"
    by code_simp
  have b: "searchInput ?p \<noteq> None"
    by code_simp
  have l: "\<forall>it\<in>set (training_items ?p). lower_cased_searchText ascii_toLowerCase it"
    by code_simp
  have l': "map (lower_cased_searchText ascii_toLowerCase) (training_items ?p) = [True, True]"
    by code_simp
  have c: "search_input iso_dates ascii_toLowerCase ''DISK'' ?p
     = Inr (?p\<lparr>filters := default_filters\<lparr>searchTerm := ''disk''\<rparr>,
           searchInput := Some ''DISK'',
           training_items := [router_card\<lparr>display := ''none''\<rparr>, disk_card],
           visibleCount := 1\<rparr>)"
    by code_simp
  have c': "search_input iso_dates ascii_toLowerCase ''disk'' ?p
     = Inr (?p\<lparr>filters := default_filters\<lparr>searchTerm := ''disk''\<rparr>,
           searchInput := Some ''disk'',
           training_items := [router_card\<lparr>display := ''none''\<rparr>, disk_card],
           visibleCount := 1\<rparr>)"
    by code_simp
  have d: "search_input iso_dates ascii_toLowerCase ''node 9'' ?p
     = Inr (?p\<lparr>filters := default_filters\<lparr>searchTerm := ''node 9''\<rparr>,
           searchInput := Some ''node 9'',
           training_items := [router_card\<lparr>display := ''none''\<rparr>, disk_card\<lparr>display := ''none''\<rparr>],
           visibleCount := 0, noResults_display := ''block'', trainingGrid_display := ''none''\<rparr>)"
    by code_simp
  have e: "ascii_toLowerCase ''DISK'' = ascii_toLowerCase ''disk''
   \<and> ascii_toLowerCase ''DISK'' = ''disk''
   \<and> sublist (ascii_toLowerCase ''DISK'') (ascii_toLowerCase ''disk failure on node 7'')
   \<and> \<not> sublist (ascii_toLowerCase ''node 9'') (ascii_toLowerCase ''disk failure on node 7'')"
    by code_simp
  from visible_iff_predicates
    [of iso_dates ?p "?p\<lparr>training_items := [router_card, disk_card]\<rparr>" ascii_toLowerCase
       "''DISK''" "''disk''"
       "?p\<lparr>filters := default_filters\<lparr>searchTerm := ''disk''\<rparr>,
           searchInput := Some ''DISK'',
           training_items := [router_card\<lparr>display := ''none''\<rparr>, disk_card],
           visibleCount := 1\<rparr>"
       "?p\<lparr>filters := default_filters\<lparr>searchTerm := ''disk''\<rparr>,
           searchInput := Some ''disk'',
           training_items := [router_card\<lparr>display := ''none''\<rparr>, disk_card],
           visibleCount := 1\<rparr>"]
    a b l c c' e
  have "\<exists>q. search_input iso_dates ascii_toLowerCase ''DISK'' ?p = Inr q
         \<and> searchTerm (filters q) = ascii_toLowerCase ''DISK''"
    by blast
  with a b l' c c' d e show ?thesis by blast
qed

section \<open>The order of the cards\<close>

text \<open>
  C3, as amended. Where no element has an invalid date, the sort of \<^verbatim>\<open>filterItems\<close>,
  \<^verbatim>\<open>filterKBTable\<close> and \<^verbatim>\<open>filterTDTable\<close> is stable, for \<^verbatim>\<open>newest\<close> as for any other order: the
  elements with one and the same time value stand in the result in the order in which they
  stood before, in the sorted array and in the container that the function fills; and the
  result is sorted by time value, descending for \<^verbatim>\<open>newest\<close> and ascending otherwise.
\<close>

theorem sort_is_stable:
  "((\<forall>x\<in>set items. date_of parse x \<noteq> None) \<longrightarrow>
      filter (\<lambda>it. date_of parse it = k) (array_sort (by_date parse order) items)
        = filter (\<lambda>it. date_of parse it = k) items
      \<and> sorted (map (\<lambda>a. if order = ''newest'' then - the (date_of parse a) else the (date_of parse a))
           (array_sort (by_date parse order) items)))
   \<and> ((\<forall>x\<in>set (training_items p). date_of parse x \<noteq> None) \<and> filterItems parse p = Inr p' \<longrightarrow>
        map (\<lambda>it. it\<lparr>display := ''''\<rparr>) (filter (\<lambda>it. date_of parse it = k) (training_items p'))
        = map (\<lambda>it. it\<lparr>display := ''''\<rparr>) (filter (\<lambda>it. date_of parse it = k) (training_items p)))
   \<and> ((\<forall>x\<in>set krows. date_of parse x \<noteq> None) \<and> filterKBTable parse kf krows = Inr (krows', kn) \<longrightarrow>
        map (\<lambda>it. it\<lparr>display := ''''\<rparr>) (filter (\<lambda>it. date_of parse it = k) krows')
        = map (\<lambda>it. it\<lparr>display := ''''\<rparr>) (filter (\<lambda>it. date_of parse it = k) krows))
   \<and> ((\<forall>x\<in>set trows. date_of parse x \<noteq> None) \<and> filterTDTable parse tf trows = Inr (trows', tn) \<longrightarrow>
        map (\<lambda>it. it\<lparr>display := ''''\<rparr>) (filter (\<lambda>it. date_of parse it = k) trows')
        = map (\<lambda>it. it\<lparr>display := ''''\<rparr>) (filter (\<lambda>it. date_of parse it = k) trows))"
proof (intro conjI impI)
  assume "\<forall>x\<in>set items. date_of parse x \<noteq> None"
  then show "filter (\<lambda>it. date_of parse it = k) (array_sort (by_date parse order) items)
     = filter (\<lambda>it. date_of parse it = k) items"
    and "sorted (map (\<lambda>a. if order = ''newest'' then - the (date_of parse a) else the (date_of parse a))
           (array_sort (by_date parse order) items))"
    by (rule by_date_stable, rule sorted_valid)
next
  assume h: "(\<forall>x\<in>set (training_items p). date_of parse x \<noteq> None) \<and> filterItems parse p = Inr p'"
  from stable_after_marking[OF conjunct1[OF h] filterItems_result(1)[OF conjunct2[OF h]]]
  show "map (\<lambda>it. it\<lparr>display := ''''\<rparr>) (filter (\<lambda>it. date_of parse it = k) (training_items p'))
        = map (\<lambda>it. it\<lparr>display := ''''\<rparr>) (filter (\<lambda>it. date_of parse it = k) (training_items p))" .
next
  assume h: "(\<forall>x\<in>set krows. date_of parse x \<noteq> None) \<and> filterKBTable parse kf krows = Inr (krows', kn)"
  then have "krows' = map (\<lambda>it. it\<lparr>display := (if showByCategory kf it then '''' else ''none'')\<rparr>)
                (array_sort (by_date parse (kb_sort kf)) krows)"
    unfolding filterKBTable_def by (intro table_rows) simp
  from stable_after_marking[OF conjunct1[OF h] this]
  show "map (\<lambda>it. it\<lparr>display := ''''\<rparr>) (filter (\<lambda>it. date_of parse it = k) krows')
        = map (\<lambda>it. it\<lparr>display := ''''\<rparr>) (filter (\<lambda>it. date_of parse it = k) krows)" .
next
  assume h: "(\<forall>x\<in>set trows. date_of parse x \<noteq> None) \<and> filterTDTable parse tf trows = Inr (trows', tn)"
  then have "trows' = map (\<lambda>it. it\<lparr>display := (if showByUrgency tf it then '''' else ''none'')\<rparr>)
                (array_sort (by_date parse (td_sort tf)) trows)"
    unfolding filterTDTable_def by (intro table_rows) simp
  from stable_after_marking[OF conjunct1[OF h] this]
  show "map (\<lambda>it. it\<lparr>display := ''''\<rparr>) (filter (\<lambda>it. date_of parse it = k) trows')
        = map (\<lambda>it. it\<lparr>display := ''''\<rparr>) (filter (\<lambda>it. date_of parse it = k) trows)" .
qed

text \<open>
  Two cards of 1 January and one of 2 January between them: the two keep their order,
  newest first in the grid and oldest first in the two tables.
\<close>

theorem sort_is_stable_witness:
  "map (date_of iso_dates) [disk_card, router_card, outage_card]
     = [Some 1704067200000, Some 1704153600000, Some 1704067200000]
   \<and> filterItems iso_dates (loaded_page [disk_card, router_card, outage_card])
     = Inr ((loaded_page [disk_card, router_card, outage_card])
              \<lparr>training_items := [router_card, disk_card, outage_card]\<rparr>)
   \<and> filterKBTable iso_dates \<lparr>kb_categories = [], kb_sort = ''oldest''\<rparr>
        [disk_card, router_card, outage_card]
     = Inr ([disk_card, outage_card, router_card], 3)
   \<and> filterTDTable iso_dates \<lparr>td_urgency = [''High''], td_sort = ''oldest''\<rparr>
        [disk_card, router_card, outage_card]
     = Inr ([disk_card\<lparr>display := ''none''\<rparr>, outage_card, router_card\<lparr>display := ''none''\<rparr>], 1)
   \<and> filter (\<lambda>it. date_of iso_dates it = Some 1704067200000)
        (array_sort (by_date iso_dates ''newest'') [disk_card, router_card, outage_card])
     = [disk_card, outage_card]"
proof -
  have a: "filterItems iso_dates (loaded_page [disk_card, router_card, outage_card])
     = Inr ((loaded_page [disk_card, router_card, outage_card])
              \<lparr>training_items := [router_card, disk_card, outage_card]\<rparr>)"
    by code_simp
  have b: "filterKBTable iso_dates \<lparr>kb_categories = [], kb_sort = ''oldest''\<rparr>
        [disk_card, router_card, outage_card]
     = Inr ([disk_card, outage_card, router_card], 3)"
    by code_simp
  have c: "filterTDTable iso_dates \<lparr>td_urgency = [''High''], td_sort = ''oldest''\<rparr>
        [disk_card, router_card, outage_card]
     = Inr ([disk_card\<lparr>display := ''none''\<rparr>, outage_card, router_card\<lparr>display := ''none''\<rparr>], 1)"
    by code_simp
  have d: "\<forall>x\<in>set [disk_card, router_card, outage_card]. date_of iso_dates x \<noteq> None"
    by code_simp
  have d': "\<forall>x\<in>set (training_items (loaded_page [disk_card, router_card, outage_card])).
              date_of iso_dates x \<noteq> None"
    by code_simp
  have e: "filter (\<lambda>it. date_of iso_dates it = Some 1704067200000)
        [disk_card, router_card, outage_card] = [disk_card, outage_card]"
    by code_simp
  have f: "map (date_of iso_dates) [disk_card, router_card, outage_card]
     = [Some 1704067200000, Some 1704153600000, Some 1704067200000]"
    by code_simp
  from sort_is_stable [of "[disk_card, router_card, outage_card]" iso_dates
      "Some 1704067200000" "''newest''"
      "loaded_page [disk_card, router_card, outage_card]"
      "(loaded_page [disk_card, router_card, outage_card])
              \<lparr>training_items := [router_card, disk_card, outage_card]\<rparr>"
      "[disk_card, router_card, outage_card]"
      "\<lparr>kb_categories = [], kb_sort = ''oldest''\<rparr>"
      "[disk_card, outage_card, router_card]" 3
      "[disk_card, router_card, outage_card]"
      "\<lparr>td_urgency = [''High''], td_sort = ''oldest''\<rparr>"
      "[disk_card\<lparr>display := ''none''\<rparr>, outage_card, router_card\<lparr>display := ''none''\<rparr>]" 1]
    a b c d d' e f
  show ?thesis by simp
qed

text \<open>
  The claim as stated fails once a date does not parse. Seven cards, newest first: the
  first is of 1 January, the third has the date \<^verbatim>\<open>n/a\<close>, the others are of 2 January. The
  run is the first two cards, reversed; the binary search for the sixth card meets the
  card whose date does not parse, takes the comparison for a tie and leaves the sixth card
  where it is, behind the card of 1 January; the seventh card is then put before that
  card. The two cards have the same date and have changed places.
\<close>

theorem equal_dates_change_places:
  "map ident (filter (\<lambda>it. date_of iso_dates it = Some 1704153600000)
     [dated 0 ''2024-01-01'', dated 1 ''2024-01-02'', dated 2 ''n/a'', dated 3 ''2024-01-02'',
      dated 4 ''2024-01-02'', dated 5 ''2024-01-02'', dated 6 ''2024-01-02''])
     = [1, 3, 4, 5, 6]
   \<and> filterItems iso_dates (loaded_page
     [dated 0 ''2024-01-01'', dated 1 ''2024-01-02'', dated 2 ''n/a'', dated 3 ''2024-01-02'',
      dated 4 ''2024-01-02'', dated 5 ''2024-01-02'', dated 6 ''2024-01-02''])
     = Inr ((loaded_page
     [dated 0 ''2024-01-01'', dated 1 ''2024-01-02'', dated 2 ''n/a'', dated 3 ''2024-01-02'',
      dated 4 ''2024-01-02'', dated 5 ''2024-01-02'', dated 6 ''2024-01-02''])
        \<lparr>training_items :=
           [dated 1 ''2024-01-02'', dated 3 ''2024-01-02'', dated 4 ''2024-01-02'',
            dated 6 ''2024-01-02'', dated 0 ''2024-01-01'', dated 2 ''n/a'',
            dated 5 ''2024-01-02'']\<rparr>)
   \<and> map ident (filter (\<lambda>it. date_of iso_dates it = Some 1704153600000)
     [dated 1 ''2024-01-02'', dated 3 ''2024-01-02'', dated 4 ''2024-01-02'',
      dated 6 ''2024-01-02'', dated 0 ''2024-01-01'', dated 2 ''n/a'',
      dated 5 ''2024-01-02''])
     = [1, 3, 4, 6, 5]"
  by code_simp

text \<open>
  C4, as amended. A card whose \<^verbatim>\<open>data-date\<close> is absent or empty is sorted with the time value
  0. On a page where no card has an invalid date, it stands after every card with a
  positive time value when the order is \<^verbatim>\<open>newest\<close>, and before every such card otherwise.
\<close>

theorem missing_date_is_epoch:
  assumes "filterItems parse p = Inr p'"
    and "\<forall>x\<in>set (training_items p). date_of parse x \<noteq> None"
    and "i < length (training_items p')" and "j < length (training_items p')"
    and "data_date (training_items p' ! i) = None \<or> data_date (training_items p' ! i) = Some []"
    and "date_of parse (training_items p' ! j) = Some t" and "0 < t"
  shows "date_of parse (training_items p' ! i) = Some 0
    \<and> (sortBy (filters p) = ''newest'' \<longrightarrow> j < i)
    \<and> (sortBy (filters p) \<noteq> ''newest'' \<longrightarrow> i < j)"
proof -
  have z: "date_of parse (training_items p' ! i) = Some 0"
    using assms(5) by (rule date_of_missing)
  from epoch_position[OF assms(2) filterItems_result(1)[OF assms(1)] assms(3,4) z assms(6,7)] z
  show ?thesis by simp
qed

theorem missing_date_is_epoch_witness:
  "filterItems iso_dates (loaded_page [undated_card, router_card, disk_card])
     = Inr ((loaded_page [undated_card, router_card, disk_card])
              \<lparr>training_items := [router_card, disk_card, undated_card]\<rparr>)
   \<and> map (date_of iso_dates) (training_items (loaded_page [undated_card, router_card, disk_card]))
     = [Some 0, Some 1704153600000, Some 1704067200000]
   \<and> data_date ([router_card, disk_card, undated_card] ! 2) = None
   \<and> date_of iso_dates ([router_card, disk_card, undated_card] ! 0) = Some 1704153600000
   \<and> date_of iso_dates ([router_card, disk_card, undated_card] ! 2) = Some 0
   \<and> sortBy (filters (loaded_page [undated_card, router_card, disk_card])) = ''newest''
   \<and> (0::nat) < 2"
proof -
  let ?p = "loaded_page [undated_card, router_card, disk_card]"
  let ?p' = "?p\<lparr>training_items := [router_card, disk_card, undated_card]\<rparr>"
  have a: "filterItems iso_dates ?p = Inr ?p'"
    by code_simp
  have b: "\<forall>x\<in>set (training_items ?p). date_of iso_dates x \<noteq> None"
    by code_simp
  have c: "2 < length (training_items ?p')" "0 < length (training_items ?p')"
    by simp_all
  have d: "data_date (training_items ?p' ! 2) = None \<or> data_date (training_items ?p' ! 2) = Some []"
    by code_simp
  have e: "date_of iso_dates (training_items ?p' ! 0) = Some 1704153600000"
    by code_simp
  have f: "sortBy (filters ?p) = ''newest''"
    by code_simp
  have g: "data_date ([router_card, disk_card, undated_card] ! 2) = None"
    by code_simp
  have h: "map (date_of iso_dates) (training_items ?p)
     = [Some 0, Some 1704153600000, Some 1704067200000]"
    by code_simp
  from missing_date_is_epoch [OF a b c d e] f g h a e
  show ?thesis by simp
qed

text \<open>
  The claim as stated fails for a date that does not parse: its time value is \<^verbatim>\<open>NaN\<close>, not
  0, and every comparison with it counts as a tie. Such a card stays before a dated card
  under \<^verbatim>\<open>newest\<close>, and after it under \<^verbatim>\<open>oldest\<close>; standing between a dated card and a card
  without a date, it keeps these two from being compared, and the card without a date
  stays last under \<^verbatim>\<open>oldest\<close>.
\<close>

theorem unparseable_date_not_epoch:
  "date_of iso_dates garbled_card = None
   \<and> date_of iso_dates router_card = Some 1704153600000
   \<and> filterItems iso_dates (loaded_page [garbled_card, router_card])
       = Inr (loaded_page [garbled_card, router_card])
   \<and> filterItems iso_dates
        ((loaded_page [router_card, garbled_card])\<lparr>filters := default_filters\<lparr>sortBy := ''oldest''\<rparr>\<rparr>)
       = Inr ((loaded_page [router_card, garbled_card])\<lparr>filters := default_filters\<lparr>sortBy := ''oldest''\<rparr>\<rparr>)
   \<and> date_of iso_dates undated_card = Some 0
   \<and> filterItems iso_dates
        ((loaded_page [router_card, garbled_card, undated_card])
           \<lparr>filters := default_filters\<lparr>sortBy := ''oldest''\<rparr>\<rparr>)
       = Inr ((loaded_page [router_card, garbled_card, undated_card])
           \<lparr>filters := default_filters\<lparr>sortBy := ''oldest''\<rparr>\<rparr>)"
  by code_simp

section \<open>The category choices\<close>

text \<open>
  C7. The categories collected by \<^verbatim>\<open>populateCategories\<close> and \<^verbatim>\<open>populateKBCategories\<close> are
  distinct, they are the category values of the elements other than the sentinel
  \<^verbatim>\<open>none\<close> (an absent or empty attribute is no value), and they stand in the order in which
  each is first seen. The boxes of the group are the boxes that the markup of these
  categories yields, in that order; where the markup of each collected category yields the
  one box with the category as its value, the values of the boxes are the collected
  categories.
\<close>

theorem discovery_first_seen:
  "distinct (collect_categories items [])
   \<and> set (collect_categories items []) =
       {c. c \<noteq> [] \<and> c \<noteq> ''none'' \<and> (\<exists>it\<in>set items. data_category it = Some c)}
   \<and> collect_categories items [] =
       rev (remdups (rev (filter (\<lambda>c. c \<noteq> [] \<and> c \<noteq> ''none'') (List.map_filter data_category items))))
   \<and> cbs (category_group (populateCategories boxes_of p))
       = concat (map boxes_of (collect_categories (training_items p) []))
   \<and> cbs (populateKBCategories boxes_of items) = concat (map boxes_of (collect_categories items []))
   \<and> ((\<forall>c\<in>set (collect_categories (training_items p) []). boxes_of c = [(c, False)]) \<longrightarrow>
        map fst (cbs (category_group (populateCategories boxes_of p)))
          = collect_categories (training_items p) [])
   \<and> ((\<forall>c\<in>set (collect_categories items []). boxes_of c = [(c, False)]) \<longrightarrow>
        map fst (cbs (populateKBCategories boxes_of items)) = collect_categories items [])"
proof (intro conjI impI)
  show "distinct (collect_categories items [])"
    by (rule distinct_collect_categories)
  show "set (collect_categories items []) =
       {c. c \<noteq> [] \<and> c \<noteq> ''none'' \<and> (\<exists>it\<in>set items. data_category it = Some c)}"
    by (rule set_collect_categories)
  show "collect_categories items [] =
       rev (remdups (rev (filter (\<lambda>c. c \<noteq> [] \<and> c \<noteq> ''none'') (List.map_filter data_category items))))"
    by (rule collect_categories_first_seen)
  show "cbs (category_group (populateCategories boxes_of p))
       = concat (map boxes_of (collect_categories (training_items p) []))"
    by (simp add: populateCategories_def category_choices_def)
  show "cbs (populateKBCategories boxes_of items) = concat (map boxes_of (collect_categories items []))"
    by (simp add: populateKBCategories_def category_choices_def)
next
  assume "\<forall>c\<in>set (collect_categories (training_items p) []). boxes_of c = [(c, False)]"
  from plain_boxes[OF this]
  show "map fst (cbs (category_group (populateCategories boxes_of p)))
          = collect_categories (training_items p) []"
    by (simp add: populateCategories_def category_choices_def comp_def)
next
  assume "\<forall>c\<in>set (collect_categories items []). boxes_of c = [(c, False)]"
  from plain_boxes[OF this]
  show "map fst (cbs (populateKBCategories boxes_of items)) = collect_categories items []"
    by (simp add: populateKBCategories_def category_choices_def comp_def)
qed

text \<open>A card of category \<^verbatim>\<open>none\<close> and a card of category \<^verbatim>\<open>outage\<close> give the one choice \<^verbatim>\<open>outage\<close>.\<close>

theorem discovery_first_seen_witness:
  "map data_category [disk_card, outage_card] = [Some ''none'', Some ''outage'']
   \<and> collect_categories [disk_card, outage_card] [] = [''outage'']
   \<and> set (collect_categories [disk_card, outage_card] []) =
       {c. c \<noteq> [] \<and> c \<noteq> ''none'' \<and> (\<exists>it\<in>set [disk_card, outage_card]. data_category it = Some c)}
   \<and> collect_categories [router_card, outage_card, disk_card, router_card, outage_card] []
       = [''network'', ''outage'']
   \<and> map html_boxes (collect_categories [disk_card, outage_card] []) = [[(''outage'', False)]]
   \<and> training_items (loaded_page [disk_card, outage_card]) = [disk_card, outage_card]
   \<and> map fst (cbs (category_group (populateCategories html_boxes (loaded_page [disk_card, outage_card]))))
       = [''outage'']
   \<and> map fst (cbs (populateKBCategories html_boxes [disk_card, outage_card])) = [''outage'']"
proof -
  have a: "map data_category [disk_card, outage_card] = [Some ''none'', Some ''outage'']"
    by code_simp
  have b: "collect_categories [disk_card, outage_card] [] = [''outage'']"
    by code_simp
  have c: "collect_categories [router_card, outage_card, disk_card, router_card, outage_card] []
       = [''network'', ''outage'']"
    by code_simp
  have d: "map html_boxes (collect_categories [disk_card, outage_card] []) = [[(''outage'', False)]]"
    by code_simp
  have e: "training_items (loaded_page [disk_card, outage_card]) = [disk_card, outage_card]"
    by code_simp
  have f: "\<forall>c\<in>set (collect_categories [disk_card, outage_card] []). html_boxes c = [(c, False)]"
    by code_simp
  from discovery_first_seen [of "[disk_card, outage_card]" html_boxes "loaded_page [disk_card, outage_card]"]
    a b c d e f
  show ?thesis by simp
qed




section \<open>``All'' against the individual boxes\<close>

text \<open>
  C9. On a page where in neither group the ``All'' box is checked together with an
  individual box, this is so again after every sequence of clicks on the checkboxes of
  the two groups and on the clear button. The groups that \<^verbatim>\<open>populateCategories\<close> and
  \<^verbatim>\<open>populateKBCategories\<close> build start that way, whatever values the markup of the
  categories gives to boxes that it leaves unchecked. The listeners keep it on every group:
  checking ``All'' unchecks every individual box, and checking an individual box unchecks
  ``All''.
\<close>

theorem all_and_individual_exclusive:
  "(exclusive (urgency_group p) \<and> exclusive (category_group p) \<longrightarrow>
      exclusive (urgency_group (settle events p)) \<and> exclusive (category_group (settle events p)))
   \<and> exclusive (category_group
        (populateCategories (\<lambda>cat. map (\<lambda>v. (v, False)) (values_of cat)) p))
   \<and> exclusive (populateKBCategories (\<lambda>cat. map (\<lambda>v. (v, False)) (values_of cat)) rows)
   \<and> exclusive (all_changed g)
   \<and> (exclusive g \<longrightarrow> exclusive (cb_changed i g))
   \<and> (\<not> allCb g \<longrightarrow> allCb (all_changed g) \<and> (\<forall>cb\<in>set (cbs (all_changed g)). \<not> snd cb))
   \<and> (i < length (cbs g) \<and> \<not> snd (cbs g ! i) \<longrightarrow>
        snd (cbs (cb_changed i g) ! i) \<and> \<not> allCb (cb_changed i g))"
proof (intro conjI impI)
  assume "exclusive (urgency_group p) \<and> exclusive (category_group p)"
  from exclusive_settle[OF this]
  show "exclusive (urgency_group (settle events p))" "exclusive (category_group (settle events p))"
    by simp_all
next
  show "exclusive (category_group
        (populateCategories (\<lambda>cat. map (\<lambda>v. (v, False)) (values_of cat)) p))"
    by (auto simp: populateCategories_def category_choices_def exclusive_def)
  show "exclusive (populateKBCategories (\<lambda>cat. map (\<lambda>v. (v, False)) (values_of cat)) rows)"
    by (auto simp: populateKBCategories_def category_choices_def exclusive_def)
  show "exclusive (all_changed g)" by (rule exclusive_all_changed)
next
  assume "exclusive g" then show "exclusive (cb_changed i g)" by (rule exclusive_cb_changed)
next
  assume "\<not> allCb g"
  then show "allCb (all_changed g)" "\<forall>cb\<in>set (cbs (all_changed g)). \<not> snd cb"
    by (auto simp: all_changed_def uncheck_all_def)
next
  assume "i < length (cbs g) \<and> \<not> snd (cbs g ! i)"
  then show "snd (cbs (cb_changed i g) ! i)" "\<not> allCb (cb_changed i g)"
    by (auto simp: cb_changed_def Let_def)
qed

text \<open>
  On the loaded page: \<^verbatim>\<open>Critical\<close> and \<^verbatim>\<open>Medium\<close> are checked, then ``All'', then \<^verbatim>\<open>High\<close>, then
  the one category.
\<close>

theorem all_and_individual_exclusive_witness:
  "exclusive (urgency_group (loaded_page [router_card]))
   \<and> exclusive (category_group (loaded_page [router_card]))
   \<and> urgency_group (settle [UrgencyChange 0, UrgencyChange 2] (loaded_page [router_card]))
       = \<lparr>allCb = False,
          cbs = [(''Critical'', True), (''High'', False), (''Medium'', True), (''Low'', False)]\<rparr>
   \<and> urgency_group (settle [UrgencyChange 0, UrgencyChange 2, UrgAllChange] (loaded_page [router_card]))
       = \<lparr>allCb = True,
          cbs = [(''Critical'', False), (''High'', False), (''Medium'', False), (''Low'', False)]\<rparr>
   \<and> urgency_group
        (settle [UrgencyChange 0, UrgencyChange 2, UrgAllChange, UrgencyChange 1, CategoryChange 0]
           (loaded_page [router_card]))
       = \<lparr>allCb = False,
          cbs = [(''Critical'', False), (''High'', True), (''Medium'', False), (''Low'', False)]\<rparr>
   \<and> category_group
        (settle [UrgencyChange 0, UrgencyChange 2, UrgAllChange, UrgencyChange 1, CategoryChange 0]
           (loaded_page [router_card]))
       = \<lparr>allCb = False, cbs = [(''network'', True)]\<rparr>
   \<and> exclusive (urgency_group
        (settle [UrgencyChange 0, UrgencyChange 2, UrgAllChange, UrgencyChange 1, CategoryChange 0]
           (loaded_page [router_card])))
   \<and> exclusive (category_group
        (settle [UrgencyChange 0, UrgencyChange 2, UrgAllChange, UrgencyChange 1, CategoryChange 0]
           (loaded_page [router_card])))
   \<and> exclusive \<lparr>allCb = False,
          cbs = [(''Critical'', True), (''High'', False), (''Medium'', True), (''Low'', False)]\<rparr>
   \<and> all_changed \<lparr>allCb = False,
          cbs = [(''Critical'', True), (''High'', False), (''Medium'', True), (''Low'', False)]\<rparr>
       = \<lparr>allCb = True,
          cbs = [(''Critical'', False), (''High'', False), (''Medium'', False), (''Low'', False)]\<rparr>
   \<and> cb_changed 1 \<lparr>allCb = False,
          cbs = [(''Critical'', True), (''High'', False), (''Medium'', True), (''Low'', False)]\<rparr>
       = \<lparr>allCb = False,
          cbs = [(''Critical'', True), (''High'', True), (''Medium'', True), (''Low'', False)]\<rparr>
   \<and> cb_changed 1 \<lparr>allCb = True,
          cbs = [(''Critical'', False), (''High'', False), (''Medium'', False), (''Low'', False)]\<rparr>
       = \<lparr>allCb = False,
          cbs = [(''Critical'', False), (''High'', True), (''Medium'', False), (''Low'', False)]\<rparr>"
proof -
  let ?g = "\<lparr>allCb = False,
          cbs = [(''Critical'', True), (''High'', False), (''Medium'', True), (''Low'', False)]\<rparr>"
  have e: "exclusive ?g" "\<not> allCb ?g" "1 < length (cbs ?g) \<and> \<not> snd (cbs ?g ! 1)"
    by (simp_all add: exclusive_def)
  have f: "all_changed ?g
       = \<lparr>allCb = True,
          cbs = [(''Critical'', False), (''High'', False), (''Medium'', False), (''Low'', False)]\<rparr>"
    by code_simp
  have g: "cb_changed 1 ?g
       = \<lparr>allCb = False,
          cbs = [(''Critical'', True), (''High'', True), (''Medium'', True), (''Low'', False)]\<rparr>"
    by code_simp
  have g': "cb_changed 1 \<lparr>allCb = True,
          cbs = [(''Critical'', False), (''High'', False), (''Medium'', False), (''Low'', False)]\<rparr>
       = \<lparr>allCb = False,
          cbs = [(''Critical'', False), (''High'', True), (''Medium'', False), (''Low'', False)]\<rparr>"
    by code_simp
  have h: "exclusive (urgency_group (loaded_page [router_card]))
           \<and> exclusive (category_group (loaded_page [router_card]))"
    by code_simp
  have a: "urgency_group (settle [UrgencyChange 0, UrgencyChange 2] (loaded_page [router_card]))
       = \<lparr>allCb = False,
          cbs = [(''Critical'', True), (''High'', False), (''Medium'', True), (''Low'', False)]\<rparr>"
    by code_simp
  have b: "urgency_group (settle [UrgencyChange 0, UrgencyChange 2, UrgAllChange] (loaded_page [router_card]))
       = \<lparr>allCb = True,
          cbs = [(''Critical'', False), (''High'', False), (''Medium'', False), (''Low'', False)]\<rparr>"
    by code_simp
  have c: "urgency_group
        (settle [UrgencyChange 0, UrgencyChange 2, UrgAllChange, UrgencyChange 1, CategoryChange 0]
           (loaded_page [router_card]))
       = \<lparr>allCb = False,
          cbs = [(''Critical'', False), (''High'', True), (''Medium'', False), (''Low'', False)]\<rparr>"
    by code_simp
  have d: "category_group
        (settle [UrgencyChange 0, UrgencyChange 2, UrgAllChange, UrgencyChange 1, CategoryChange 0]
           (loaded_page [router_card]))
       = \<lparr>allCb = False, cbs = [(''network'', True)]\<rparr>"
    by code_simp
  from all_and_individual_exclusive [of "loaded_page [router_card]"
      "[UrgencyChange 0, UrgencyChange 2, UrgAllChange, UrgencyChange 1, CategoryChange 0]"
      _ _ ?g 1]
    h a b c d e f g g'
  show ?thesis by simp
qed

section \<open>The view after apply and after clear\<close>

text \<open>
  After \<^verbatim>\<open>applyFilters\<close> the view is the one \<^verbatim>\<open>filterItems\<close> computes for the new filter state:
  the ``no results'' message is shown exactly when no card is displayed.
\<close>

lemma applyFilters_recomputes:
  assumes "applyFilters parse p = Inr p'"
  shows "(noResults_display p' = ''block'' \<longleftrightarrow> visibleCount p' = 0)
    \<and> (noResults_display p' = ''none'' \<longleftrightarrow> visibleCount p' \<noteq> 0)
    \<and> visibleCount p' = length (filter (\<lambda>it. display it = '''') (training_items p'))"
proof -
  let ?a = "p\<lparr>filters := (filters p)\<lparr>
            urgency := checked_values (cbs (urgency_group p)),
            categories := checked_values (cbs (category_group p)),
            sortBy := (case sortBy_checked p of None \<Rightarrow> ''newest'' | Some v \<Rightarrow> v)\<rparr>\<rparr>"
  from assms obtain q where q: "filterItems parse ?a = Inr q" and p': "p' = updateFilterBadge q"
    by (auto simp: applyFilters_def Let_def split: sum.splits)
  let ?m = "\<lambda>it. it\<lparr>display := (if item_shown (filters ?a) it = Inr True then '''' else ''none'')\<rparr>"
  let ?s = "array_sort (by_date parse (sortBy (filters ?a))) (training_items ?a)"
  have "filter (\<lambda>it. display it = '''') (map ?m ?s)
          = map ?m (filter (\<lambda>it. item_shown (filters ?a) it = Inr True) ?s)"
    by (simp add: filter_map comp_def)
  then have "visibleCount q = length (filter (\<lambda>it. display it = '''') (training_items q))"
    by (simp only: filterItems_result(1,2)[OF q] length_map)
  moreover have "noResults_display q = (if visibleCount q = 0 then ''block'' else ''none'')"
    by (rule filterItems_result(3)[OF q])
  ultimately show ?thesis
    by (simp add: p' updateFilterBadge_def Let_def)
qed

text \<open>
  C8 at two pages. \<^verbatim>\<open>clearAllFilters\<close> does not run \<^verbatim>\<open>filterItems\<close>. On the page with the cards of
  2 January and 1 January on which \<^verbatim>\<open>oldest\<close> has been applied, it sets the sort order back
  to \<^verbatim>\<open>newest\<close> and leaves the grid oldest first, where \<^verbatim>\<open>filterItems\<close> on the same state puts
  the newest first. On the page without cards it leaves \<^verbatim>\<open>visibleCount\<close> at 0 with the
  ``no results'' message hidden, where \<^verbatim>\<open>filterItems\<close> shows the message.
\<close>

theorem clear_leaves_view_stale:
  "applyFilters iso_dates ((loaded_page [router_card, disk_card])\<lparr>sortBy_checked := Some ''oldest''\<rparr>)
     = Inr ((loaded_page [router_card, disk_card])
              \<lparr>filters := default_filters\<lparr>sortBy := ''oldest''\<rparr>,
               sortBy_checked := Some ''oldest'',
               training_items := [disk_card, router_card],
               filter_count_text := 1,
               filter_count_display := ''inline''\<rparr>)
   \<and> clearAllFilters ((loaded_page [router_card, disk_card])
              \<lparr>filters := default_filters\<lparr>sortBy := ''oldest''\<rparr>,
               sortBy_checked := Some ''oldest'',
               training_items := [disk_card, router_card],
               filter_count_text := 1,
               filter_count_display := ''inline''\<rparr>)
     = (loaded_page [router_card, disk_card])
              \<lparr>training_items := [disk_card, router_card], filter_count_text := 1\<rparr>
   \<and> sortBy (filters ((loaded_page [router_card, disk_card])
              \<lparr>training_items := [disk_card, router_card], filter_count_text := 1\<rparr>)) = ''newest''
   \<and> filterItems iso_dates ((loaded_page [router_card, disk_card])
              \<lparr>training_items := [disk_card, router_card], filter_count_text := 1\<rparr>)
     = Inr ((loaded_page [router_card, disk_card])
              \<lparr>training_items := [router_card, disk_card], filter_count_text := 1\<rparr>)
   \<and> training_items (clearAllFilters (loaded_page [])) = []
   \<and> visibleCount (clearAllFilters (loaded_page [])) = 0
   \<and> noResults_display (clearAllFilters (loaded_page [])) = ''none''
   \<and> filterItems iso_dates (clearAllFilters (loaded_page []))
     = Inr ((clearAllFilters (loaded_page []))
              \<lparr>noResults_display := ''block'', trainingGrid_display := ''none''\<rparr>)"
  by code_simp

end
